theory Spec2Isabelle
  imports Main "HOL-Library.AList"
begin

section \<open>Configuration values\<close>

text \<open>
  The views of \<^verbatim>\<open>access/views.py\<close> work on configuration entries: Python
  dictionaries loaded from course files, whose values are numbers, strings, lists and
  further dictionaries. A dictionary is an association list with string keys, in insertion
  order; looking a key up is \<open>map_of\<close>, \<^verbatim>\<open>d[k] = v\<close> is \<open>setitem\<close> (an
  existing key keeps its place, a new key goes last) and \<^verbatim>\<open>del d[k]\<close> is
  \<open>delitem\<close>. These operations do not look at the values, so they are written for
  any type of value.
\<close>

datatype json =
    JNull
  | JBool bool
  | JInt int
  | JStr string
  | JList "json list"
  | JDict "(string \<times> json) list"

type_synonym dict = "(string \<times> json) list"

text \<open>
  The exceptions the views can end with. \<open>Http404\<close> and \<open>ConfigError\<close> are raised
  by the views themselves, \<open>ImproperlyConfigured\<close> by the import of a handler; the others
  are the interpreter's: \<open>KeyError\<close> for \<^verbatim>\<open>d[k]\<close> on an absent key,
  \<open>TypeError\<close> for hashing a list or a dictionary and for an operation the operand's
  type does not have, \<open>AttributeError\<close> for a method call on an object that has no such
  method, \<open>ValueError\<close> for a dictionary update from a sequence whose element is no
  pair, \<open>IndexError\<close> for a list index out of range, \<open>OSError\<close> for a file that
  cannot be opened or written, \<open>UnicodeDecodeError\<close> for a file whose bytes are no text.
  \<open>OtherError\<close> is any exception a collaborator raises. \<open>Unmodelled\<close> is not an
  exception: it marks the one situation in which the code goes on with a value this
  development cannot represent (see \<open>update_pairs\<close>).
\<close>

datatype error =
    Http404
  | ConfigError
  | ImproperlyConfigured
  | KeyError
  | TypeError
  | AttributeError
  | ValueError
  | IndexError
  | OSError
  | UnicodeDecodeError
  | OtherError string
  | Unmodelled

definition setitem :: "(string \<times> 'v) list \<Rightarrow> string \<Rightarrow> 'v \<Rightarrow> (string \<times> 'v) list" where
  "setitem d k v = AList.update k v d"

definition delitem :: "(string \<times> 'v) list \<Rightarrow> string \<Rightarrow> (string \<times> 'v) list" where
  "delitem d k = AList.delete k d"

definition getitem :: "dict \<Rightarrow> string \<Rightarrow> error + json" where
  "getitem d k = (case map_of d k of None \<Rightarrow> Inl KeyError | Some v \<Rightarrow> Inr v)"

definition dict_get :: "dict \<Rightarrow> string \<Rightarrow> json \<Rightarrow> json" where
  "dict_get d k dflt = (case map_of d k of None \<Rightarrow> dflt | Some v \<Rightarrow> v)"

text \<open>\<^verbatim>\<open>base.update(other)\<close>: the entries of \<open>other\<close> are stored one by one, in order.\<close>

fun dict_update :: "(string \<times> 'v) list \<Rightarrow> (string \<times> 'v) list \<Rightarrow> (string \<times> 'v) list" where
  "dict_update base [] = base"
| "dict_update base ((k, v) # other) = dict_update (setitem base k v) other"

text \<open>Lists and dictionaries cannot be hashed, so they cannot be looked up as a key.\<close>

fun hashable :: "json \<Rightarrow> bool" where
  "hashable (JList _) = False"
| "hashable (JDict _) = False"
| "hashable _ = True"

text \<open>
  Values carry no identity here, so a deep copy is the value itself. Section
  \<open>Object identity\<close> below models which objects a copy shares with its original.
\<close>

definition deepcopy :: "json \<Rightarrow> json" where
  "deepcopy v = v"

section \<open>The dictionary helpers\<close>

text \<open>
  \<^verbatim>\<open>_filter_fields(dict_list, pick_fields)\<close>. The inner loop reads
  \<^verbatim>\<open>entry[name]\<close>, which raises \<open>KeyError\<close> on an absent field.
\<close>

fun pick_entry :: "dict \<Rightarrow> string list \<Rightarrow> dict \<Rightarrow> error + dict" where
  "pick_entry entry [] new_entry = Inr new_entry"
| "pick_entry entry (name # names) new_entry =
     (case getitem entry name of
        Inl e \<Rightarrow> Inl e
      | Inr v \<Rightarrow> pick_entry entry names (setitem new_entry name v))"

fun filter_loop :: "dict list \<Rightarrow> string list \<Rightarrow> dict list \<Rightarrow> error + dict list" where
  "filter_loop [] pick_fields result = Inr result"
| "filter_loop (entry # rest) pick_fields result =
     (case pick_entry entry pick_fields [] of
        Inl e \<Rightarrow> Inl e
      | Inr new_entry \<Rightarrow> filter_loop rest pick_fields (result @ [new_entry]))"

definition filter_fields :: "dict list \<Rightarrow> string list \<Rightarrow> error + dict list" where
  "filter_fields dict_list pick_fields = filter_loop dict_list pick_fields []"

text \<open>\<^verbatim>\<open>_copy_fields(dict_item, pick_fields)\<close>: an absent field is skipped.\<close>

fun copy_loop :: "dict \<Rightarrow> string list \<Rightarrow> dict \<Rightarrow> dict" where
  "copy_loop dict_item [] result = result"
| "copy_loop dict_item (name # names) result =
     copy_loop dict_item names
       (case map_of dict_item name of
          Some v \<Rightarrow> setitem result name (deepcopy v)
        | None \<Rightarrow> result)"

definition copy_fields :: "dict \<Rightarrow> string list \<Rightarrow> dict" where
  "copy_fields dict_item pick_fields = copy_loop dict_item pick_fields []"

text \<open>
  \<^verbatim>\<open>_type_dict(dict_item, dict_types)\<close>. The test
  \<^verbatim>\<open>dict_item["type"] in dict_types\<close> hashes the type value: a list or a dictionary
  there raises \<open>TypeError\<close>; a value that is no string is no key of \<open>dict_types\<close>.
  \<open>type_entry\<close> is that test together with the read \<^verbatim>\<open>dict_types[...]\<close> that
  follows it. The named entry is deep-copied and then updated: if it is no dictionary it has
  no \<^verbatim>\<open>update\<close> method, which raises \<open>AttributeError\<close>.
\<close>

definition type_entry :: "json \<Rightarrow> dict \<Rightarrow> error + json option" where
  "type_entry t dict_types =
     (if \<not> hashable t then Inl TypeError
      else Inr (case t of JStr s \<Rightarrow> map_of dict_types s | _ \<Rightarrow> None))"

definition merge_item :: "(string \<times> 'v) list \<Rightarrow> (string \<times> 'v) list \<Rightarrow> (string \<times> 'v) list" where
  "merge_item base dict_item =
     (let base = dict_update base dict_item
      in if map_of base ''type'' \<noteq> None then delitem base ''type'' else base)"

definition type_dict :: "dict \<Rightarrow> dict \<Rightarrow> error + dict" where
  "type_dict dict_item dict_types =
     (case map_of dict_item ''type'' of
        None \<Rightarrow> Inr (merge_item [] dict_item)
      | Some t \<Rightarrow>
          (case type_entry t dict_types of
             Inl e \<Rightarrow> Inl e
           | Inr None \<Rightarrow> Inr (merge_item [] dict_item)
           | Inr (Some entry) \<Rightarrow>
               (case deepcopy entry of
                  JDict base \<Rightarrow> Inr (merge_item base dict_item)
                | _ \<Rightarrow> Inl AttributeError)))"

section \<open>Requests, responses and collaborators\<close>

text \<open>
  What the views read of a request: its method, whether it is an AJAX request, the query
  parameters and the posted form (in both a name can carry several values) and the method
  that makes a URL absolute. \<open>query_get\<close> is \<^verbatim>\<open>request.GET.get(name, None)\<close>: the
  last value given for the name, \<open>None\<close> when there is none.
\<close>

record request =
  http_method :: string
  is_ajax :: bool
  GET :: "(string \<times> string list) list"
  POST :: "(string \<times> string list) list"
  build_absolute_uri :: "string \<Rightarrow> string"

definition query_get :: "(string \<times> string list) list \<Rightarrow> string \<Rightarrow> string option" where
  "query_get query name =
     (case map_of query name of
        None \<Rightarrow> None
      | Some values \<Rightarrow> if values = [] then None else Some (last values))"

datatype response =
    JsonResponse json
  | HttpResponse string

text \<open>
  An exercise handler is called with the request, the course entry, the exercise entry and
  the \<^verbatim>\<open>post_url\<close> parameter; the language the view has activated before the call is
  its first argument here.
\<close>

type_synonym handler =
  "json \<Rightarrow> request \<Rightarrow> dict \<Rightarrow> dict \<Rightarrow> string option \<Rightarrow> error + response"

text \<open>
  The collaborators and settings of the views: the three lookups of the configuration
  parser (\<open>None\<close> is Python's \<^verbatim>\<open>None\<close>: no such entry), URL reversal, template
  rendering, the activation of a language (\<^verbatim>\<open>translation.activate\<close>), the import of a
  handler by its dotted path, the rendering of a value by \<^verbatim>\<open>str.format\<close>, the JSON
  encoding of a posted form, the decoding of a file's bytes in the encoding of the locale
  (\<open>None\<close>: the bytes are no text in that encoding), and two settings. A lookup, an
  activation or an import can raise.
\<close>

record env =
  config_course_entry :: "string \<Rightarrow> error + dict option"
  config_exercises :: "string \<Rightarrow> error + dict option \<times> dict list"
  config_exercise_entry :: "json \<Rightarrow> json \<Rightarrow> string option \<Rightarrow> error + dict option \<times> dict option"
  reverse :: "string \<Rightarrow> json list \<Rightarrow> string"
  render :: "string \<Rightarrow> dict \<Rightarrow> string"
  translation_activate :: "json \<Rightarrow> error + unit"
  import_by_path :: "json \<Rightarrow> error + handler"
  format_value :: "json \<Rightarrow> string"
  json_dumps :: "(string \<times> string list) list \<Rightarrow> string"
  decode_text :: "string \<Rightarrow> string option"
  STATIC_URL :: string
  SUBMISSION_PATH :: string

text \<open>Sequencing: an exception ends the computation.\<close>

definition and_then :: "error + 'a \<Rightarrow> ('a \<Rightarrow> error + 'b) \<Rightarrow> error + 'b" where
  "and_then m f = (case m of Inl e \<Rightarrow> Inl e | Inr x \<Rightarrow> f x)"

section \<open>The course and exercise views\<close>


text \<open>
  The exercise view. \<^verbatim>\<open>not lang\<close> holds for an absent and for an empty parameter;
  \<open>exercise_language\<close> is the language the view activates, and the activation comes
  before the handler is imported: an exception it raises ends the view. Only
  \<open>ImproperlyConfigured\<close> is caught around the import, and re-raised as
  \<open>ConfigError\<close>.
\<close>

definition exercise_language :: "string option \<Rightarrow> dict \<Rightarrow> json" where
  "exercise_language lang course =
     (case lang of
        Some l \<Rightarrow>
          if l \<noteq> [] then JStr l
          else (case map_of course ''lang'' of Some cl \<Rightarrow> cl | None \<Rightarrow> JStr ''en'')
      | None \<Rightarrow> (case map_of course ''lang'' of Some cl \<Rightarrow> cl | None \<Rightarrow> JStr ''en''))"

definition exercise_view :: "env \<Rightarrow> request \<Rightarrow> string \<Rightarrow> string \<Rightarrow> error + response" where
  "exercise_view env request course_key exercise_key =
     (let post_url = query_get (GET request) ''post_url'';
          lang = query_get (GET request) ''lang''
      in and_then (config_exercise_entry env (JStr course_key) (JStr exercise_key) lang)
        (\<lambda>(course, exercise).
          case (course, exercise) of
            (None, _) \<Rightarrow> Inl Http404
          | (Some course, None) \<Rightarrow> Inl Http404
          | (Some course, Some exercise) \<Rightarrow>
              (let lang = exercise_language lang course
               in and_then (translation_activate env lang) (\<lambda>_.
                  and_then (getitem exercise ''view_type'') (\<lambda>view_type.
                    case import_by_path env view_type of
                      Inl ImproperlyConfigured \<Rightarrow> Inl ConfigError
                    | Inl e \<Rightarrow> Inl e
                    | Inr exview \<Rightarrow> exview lang request course exercise post_url)))))"

section \<open>The JSON feed\<close>

text \<open>
  \<open>aplus_json\<close> walks the course entry: \<^verbatim>\<open>course["modules"]\<close> and every
  \<^verbatim>\<open>parent["children"]\<close> are iterated, and their elements are used as dictionaries.
  The development covers the entries of that shape: a list of dictionaries in both places, a
  dictionary under \<^verbatim>\<open>"module_types"\<close> and \<^verbatim>\<open>"exercise_types"\<close>. On any
  other shape the functions below give \<open>Unmodelled\<close> and say nothing about the code.
\<close>

fun is_dict :: "json \<Rightarrow> bool" where
  "is_dict (JDict _) = True"
| "is_dict _ = False"

fun has_key :: "json \<Rightarrow> bool" where
  "has_key (JDict d) = (map_of d ''key'' \<noteq> None)"
| "has_key _ = False"

definition static_path :: "env \<Rightarrow> json \<Rightarrow> json \<Rightarrow> string" where
  "static_path env course_key static_content =
     STATIC_URL env @ format_value env course_key @ ''/'' @ format_value env static_content"

text \<open>
  The \<^verbatim>\<open>if "config" in o ... elif "static_content" in o ... else\<close> of the loop body,
  which builds the dictionary \<^verbatim>\<open>of\<close>. The exercise entry is read without a test for
  \<^verbatim>\<open>None\<close>, so \<^verbatim>\<open>exercise.get\<close> raises \<open>AttributeError\<close> when the parser
  knows no such exercise.
\<close>

definition child_fields :: "env \<Rightarrow> request \<Rightarrow> dict \<Rightarrow> dict \<Rightarrow> error + dict" where
  "child_fields env request course o' =
     (if map_of o' ''config'' \<noteq> None then
        and_then (getitem course ''key'') (\<lambda>course_key.
        and_then (getitem o' ''key'') (\<lambda>key.
        and_then (config_exercise_entry env course_key key None) (\<lambda>(_, exercise).
          case exercise of
            None \<Rightarrow> Inl AttributeError
          | Some exercise \<Rightarrow>
              and_then (getitem exercise ''key'') (\<lambda>exercise_key.
                Inr [(''title'', dict_get exercise ''title'' (JStr [])),
                     (''description'', dict_get exercise ''description'' (JStr [])),
                     (''url'', JStr (build_absolute_uri request
                        (reverse env ''access.views.exercise''
                           [course_key, exercise_key])))]))))
      else if map_of o' ''static_content'' \<noteq> None then
        and_then (getitem course ''key'') (\<lambda>course_key.
        and_then (getitem o' ''static_content'') (\<lambda>static_content.
          Inr [(''url'', JStr (build_absolute_uri request
                  (static_path env course_key static_content)))]))
      else Inr [])"

text \<open>
  \<^verbatim>\<open>children_recursion(parent)\<close>. The list comprehension keeps the children that
  have a \<^verbatim>\<open>"key"\<close>; \<open>children_loop\<close> is the \<^verbatim>\<open>for\<close> loop over them, with
  \<^verbatim>\<open>result\<close> as its accumulator. The recursion ends because a child is a part of its
  parent.
\<close>

lemma and_then_cong [fundef_cong]:
  "m = m' \<Longrightarrow> (\<And>x. m' = Inr x \<Longrightarrow> f x = f' x) \<Longrightarrow> and_then m f = and_then m' f'"
  by (auto simp: and_then_def split: sum.splits)

lemma size_map_of: "map_of d k = Some v \<Longrightarrow> size v < size (JDict d)"
  by (induction d) (auto split: if_splits)

lemma size_list_filter_le: "size_list f (filter P xs) \<le> size_list f xs"
  by (induction xs) auto

function children_recursion :: "env \<Rightarrow> request \<Rightarrow> dict \<Rightarrow> dict \<Rightarrow> error + json list"
  and children_loop ::
    "env \<Rightarrow> request \<Rightarrow> dict \<Rightarrow> json list \<Rightarrow> json list \<Rightarrow> error + json list"
where
  "children_recursion env request course parent =
     (case map_of parent ''children'' of
        None \<Rightarrow> Inr []
      | Some (JList children) \<Rightarrow>
          if list_all is_dict children
          then children_loop env request course (filter has_key children) []
          else Inl Unmodelled
      | Some _ \<Rightarrow> Inl Unmodelled)"
| "children_loop env request course [] result = Inr result"
| "children_loop env request course (x # rest) result =
     (case x of
        JDict o' \<Rightarrow>
          and_then (child_fields env request course o') (\<lambda>of'.
          and_then (children_recursion env request course o') (\<lambda>children.
            case dict_get course ''exercise_types'' (JDict []) of
              JDict exercise_types \<Rightarrow>
                and_then
                  (type_dict (setitem (dict_update of' o') ''children'' (JList children))
                     exercise_types)
                  (\<lambda>typed. children_loop env request course rest (result @ [JDict typed]))
            | _ \<Rightarrow> Inl Unmodelled))
      | _ \<Rightarrow> Inl Unmodelled)"
  by pat_completeness auto
termination
proof (relation "measure (\<lambda>x. case x of
          Inl (env, request, course, parent) \<Rightarrow> size (JDict parent)
        | Inr (env, request, course, xs, result) \<Rightarrow> size (JList xs))", goal_cases)
  case 1
  then show ?case by simp
next
  case (2 env request course parent v children)
  have "size_list size (filter has_key children) \<le> size_list size children"
    by (rule size_list_filter_le)
  moreover have "size (JList children) < size (JDict parent)"
    using 2 by (auto dest: size_map_of)
  ultimately show ?case by simp
next
  case 3
  then show ?case by simp
next
  case 4
  then show ?case by simp
qed

text \<open>
  The loop over \<^verbatim>\<open>course["modules"]\<close>, with \<^verbatim>\<open>modules\<close> as its accumulator, and
  the view.
\<close>

fun modules_loop ::
  "env \<Rightarrow> request \<Rightarrow> dict \<Rightarrow> json list \<Rightarrow> json list \<Rightarrow> error + json list"
where
  "modules_loop env request course [] modules = Inr modules"
| "modules_loop env request course (x # rest) modules =
     (case x of
        JDict m \<Rightarrow>
          (case dict_get course ''module_types'' (JDict []) of
             JDict module_types \<Rightarrow>
               and_then (type_dict m module_types) (\<lambda>mf.
               and_then (children_recursion env request course m) (\<lambda>children.
                 modules_loop env request course rest
                   (modules @ [JDict (setitem mf ''children'' (JList children))])))
           | _ \<Rightarrow> Inl Unmodelled)
      | _ \<Rightarrow> Inl Unmodelled)"

definition course_fields :: "string list" where
  "course_fields =
     [''name'', ''description'', ''lang'', ''contact'', ''assistants'', ''start'', ''end'',
      ''categories'', ''numerate_ignoring_modules'']"

definition aplus_json :: "env \<Rightarrow> request \<Rightarrow> string \<Rightarrow> error + response" where
  "aplus_json env request course_key =
     and_then (config_course_entry env course_key) (\<lambda>course.
       case course of
         None \<Rightarrow> Inl Http404
       | Some course \<Rightarrow>
           (let data = copy_fields course course_fields
            in and_then
                 (case map_of course ''modules'' of
                    None \<Rightarrow> Inr []
                  | Some (JList ms) \<Rightarrow> modules_loop env request course ms []
                  | Some _ \<Rightarrow> Inl Unmodelled)
                 (\<lambda>modules.
                    Inr (JsonResponse (JDict (setitem data ''modules'' (JList modules)))))))"

section \<open>The test result\<close>

text \<open>
  The file system as \<^verbatim>\<open>test_result\<close> meets it. \<open>nodes\<close> is what
  \<^verbatim>\<open>os.stat\<close> finds under a path: nothing, a directory, or a regular file with its
  bytes. \<open>writable\<close> and \<open>readable\<close> say whether the operating system lets the
  process open the path for writing (its directory exists and permits it) and for reading.
  \<open>device_fault path text\<close> is \<open>None\<close> when the device takes the whole text, and
  the part of it that reached the file when the device fails during the write.
\<close>

datatype node = File string | Directory

record filesystem =
  nodes :: "string \<Rightarrow> node option"
  writable :: "string \<Rightarrow> bool"
  readable :: "string \<Rightarrow> bool"
  device_fault :: "string \<Rightarrow> string \<Rightarrow> string option"

text \<open>
  \<^verbatim>\<open>with open(path, 'w') as f: f.write(text)\<close>. Opening fails with \<open>OSError\<close> on a
  directory and on a path that is not writable, and then changes nothing; otherwise the file
  is created or emptied, and holds the text after the write, or a part of it when the device
  fails, which raises \<open>OSError\<close> as well. The text written below comes from
  \<^verbatim>\<open>json.dumps\<close>, which escapes every character outside ASCII and every line break:
  its bytes are its characters.
\<close>

definition write_text :: "filesystem \<Rightarrow> string \<Rightarrow> string \<Rightarrow> filesystem \<times> (error + unit)" where
  "write_text fs path text =
     (if nodes fs path = Some Directory \<or> \<not> writable fs path then (fs, Inl OSError)
      else
        (case device_fault fs path text of
           None \<Rightarrow> (fs\<lparr>nodes := (nodes fs)(path \<mapsto> File text)\<rparr>, Inr ())
         | Some part \<Rightarrow> (fs\<lparr>nodes := (nodes fs)(path \<mapsto> File part)\<rparr>, Inl OSError)))"

text \<open>
  A file opened with \<^verbatim>\<open>open(path, 'r')\<close> is read as text: the bytes are decoded, and
  the line breaks CR LF and CR of the text are returned as LF.
\<close>

fun universal_newlines :: "string \<Rightarrow> string" where
  "universal_newlines [] = []"
| "universal_newlines [c] = (if c = CHR 0x0D then [CHR 0x0A] else [c])"
| "universal_newlines (c # d # cs) =
     (if c = CHR 0x0D \<and> d = CHR 0x0A then CHR 0x0A # universal_newlines cs
      else if c = CHR 0x0D then CHR 0x0A # universal_newlines (d # cs)
      else c # universal_newlines (d # cs))"

text \<open>
  \<^verbatim>\<open>with open(path, 'r') as f: result = f.read()\<close>, for a path that exists. Opening
  fails with \<open>OSError\<close> on a directory and on a file that is not readable; reading fails
  with \<open>UnicodeDecodeError\<close> when the bytes cannot be decoded.
\<close>

definition read_text :: "env \<Rightarrow> filesystem \<Rightarrow> string \<Rightarrow> error + string" where
  "read_text env fs path =
     (case nodes fs path of
        None \<Rightarrow> Inl OSError
      | Some Directory \<Rightarrow> Inl OSError
      | Some (File bytes) \<Rightarrow>
          if \<not> readable fs path then Inl OSError
          else
            (case decode_text env bytes of
               None \<Rightarrow> Inl UnicodeDecodeError
             | Some text \<Rightarrow> Inr (universal_newlines text)))"

text \<open>
  \<open>path_join\<close> is \<^verbatim>\<open>os.path.join\<close> for a relative second part. Storing a field
  of a posted form replaces all its values by the one value.
\<close>

definition path_join :: "string \<Rightarrow> string \<Rightarrow> string" where
  "path_join a b =
     (if a = [] \<or> last a = CHR ''/'' then a @ b else a @ ''/'' @ b)"

definition set_field ::
  "(string \<times> string list) list \<Rightarrow> string \<Rightarrow> string \<Rightarrow> (string \<times> string list) list"
where
  "set_field vals k v = AList.update k [v] vals"

definition no_result :: string where
  "no_result = ''No test result received yet.''"

text \<open>
  The view returns the file system it leaves and its response or exception. \<open>now\<close> is
  \<^verbatim>\<open>str(timezone.now())\<close>, the reading of the clock at the request;
  \<^verbatim>\<open>os.path.exists\<close> holds for a file and for a directory.
\<close>

definition test_result ::
  "env \<Rightarrow> string \<Rightarrow> filesystem \<Rightarrow> request \<Rightarrow> filesystem \<times> (error + response)"
where
  "test_result env now fs request =
     (let file_path = path_join (SUBMISSION_PATH env) ''test-result''
      in if http_method request = ''POST'' then
           (let vals = set_field (POST request) ''time'' now
            in case write_text fs file_path (json_dumps env vals) of
                 (fs', Inl e) \<Rightarrow> (fs', Inl e)
               | (fs', Inr _) \<Rightarrow> (fs', Inr (JsonResponse (JDict [(''success'', JBool True)]))))
         else
           (case (if nodes fs file_path \<noteq> None
                  then and_then (read_text env fs file_path) (\<lambda>text. Inr (Some text))
                  else Inr None) of
              Inl e \<Rightarrow> (fs, Inl e)
            | Inr result \<Rightarrow>
                (fs, Inr (HttpResponse
                   (case result of
                      Some content \<Rightarrow> if content \<noteq> [] then content else no_result
                    | None \<Rightarrow> no_result)))))"

section \<open>Shapes of the feed\<close>

text \<open>
  \<open>no_type_field\<close>: an entry of the feed is a dictionary without a \<^verbatim>\<open>"type"\<close>
  key, and so is every entry of its \<^verbatim>\<open>"children"\<close> list, at every depth.
\<close>

lemma size_list_member: "x \<in> set xs \<Longrightarrow> f x < Suc (size_list f xs)"
  by (induction xs) auto

function no_type_field :: "json \<Rightarrow> bool" where
  "no_type_field (JDict d) =
     (map_of d ''type'' = None \<and>
      (case map_of d ''children'' of
         Some (JList children) \<Rightarrow> list_all no_type_field children
       | _ \<Rightarrow> True))"
| "no_type_field JNull = False"
| "no_type_field (JBool _) = False"
| "no_type_field (JInt _) = False"
| "no_type_field (JStr _) = False"
| "no_type_field (JList _) = False"
  by pat_completeness auto
termination
proof (relation "measure size", goal_cases)
  case 1
  then show ?case by simp
next
  case (2 d v children x)
  then have "size (JList children) < size (JDict d)" by (auto dest: size_map_of)
  moreover from 2 have "size x < size (JList children)"
    by (simp add: size_list_member)
  ultimately show ?case by simp
qed

text \<open>
  The course entries on which the feed is built without an exception. A node (a module or a
  child) is \<open>well_formed\<close> when it is a dictionary with each key once, its
  \<^verbatim>\<open>"type"\<close> can be hashed, and its \<^verbatim>\<open>"children"\<close>, if any, are a list of
  dictionaries of which those with a \<^verbatim>\<open>"key"\<close> are well formed and known: for a child
  with a \<^verbatim>\<open>"config"\<close> the parser returns an exercise entry that has a
  \<^verbatim>\<open>"key"\<close>, and the course entry has a \<^verbatim>\<open>"key"\<close> when a URL is built from
  it. \<open>feed_ready\<close> adds that the two type tables are dictionaries of dictionaries.
\<close>

definition exercise_known :: "env \<Rightarrow> dict \<Rightarrow> dict \<Rightarrow> bool" where
  "exercise_known env course o' =
     (case (map_of course ''key'', map_of o' ''key'') of
        (Some course_key, Some key) \<Rightarrow>
          (case config_exercise_entry env course_key key None of
             Inr (_, Some exercise) \<Rightarrow> map_of exercise ''key'' \<noteq> None
           | _ \<Rightarrow> False)
      | _ \<Rightarrow> False)"

fun child_known :: "env \<Rightarrow> dict \<Rightarrow> json \<Rightarrow> bool" where
  "child_known env course (JDict o') =
     (if map_of o' ''config'' \<noteq> None then exercise_known env course o'
      else if map_of o' ''static_content'' \<noteq> None then map_of course ''key'' \<noteq> None
      else True)"
| "child_known env course _ = False"

function well_formed :: "env \<Rightarrow> dict \<Rightarrow> json \<Rightarrow> bool" where
  "well_formed env course (JDict d) =
     (distinct (map fst d) \<and>
      (case map_of d ''type'' of Some t \<Rightarrow> hashable t | None \<Rightarrow> True) \<and>
      (case map_of d ''children'' of
         None \<Rightarrow> True
       | Some (JList children) \<Rightarrow>
           list_all is_dict children \<and>
           list_all (\<lambda>c. child_known env course c \<and> well_formed env course c)
             (filter has_key children)
       | Some _ \<Rightarrow> False))"
| "well_formed env course JNull = False"
| "well_formed env course (JBool _) = False"
| "well_formed env course (JInt _) = False"
| "well_formed env course (JStr _) = False"
| "well_formed env course (JList _) = False"
  by pat_completeness auto
termination
proof (relation "measure (\<lambda>(env, course, x). size x)", goal_cases)
  case 1
  then show ?case by simp
next
  case (2 env course d v children c)
  then have "size (JList children) < size (JDict d)" by (auto dest: size_map_of)
  moreover from 2 have "size c < size (JList children)"
    by (simp add: size_list_member)
  ultimately show ?case by simp
qed

fun dict_of_dicts :: "json \<Rightarrow> bool" where
  "dict_of_dicts (JDict types) = list_all (\<lambda>(name, entry). is_dict entry) types"
| "dict_of_dicts _ = False"

definition feed_ready :: "env \<Rightarrow> dict \<Rightarrow> bool" where
  "feed_ready env course =
     (dict_of_dicts (dict_get course ''module_types'' (JDict [])) \<and>
      dict_of_dicts (dict_get course ''exercise_types'' (JDict [])) \<and>
      (case map_of course ''modules'' of
         None \<Rightarrow> True
       | Some (JList ms) \<Rightarrow> list_all (well_formed env course) ms
       | Some _ \<Rightarrow> False))"

section \<open>Object identity\<close>

text \<open>
  Which objects a result shares with its inputs cannot be read off a value. Here a list or a
  dictionary carries its identity (Python's \<^verbatim>\<open>id\<close>) as a number; numbers, strings,
  booleans and \<^verbatim>\<open>None\<close> are immutable and need none. \<open>value_of\<close> forgets the
  identities, \<open>idents\<close> are the identities of an object and of all objects inside it,
  \<open>parts\<close> are these objects themselves. A collection of objects is \<open>consistent\<close>
  when an identity stands for one object only. The views never change an object they were
  given, so the tree of an object is all that is needed of the heap.
\<close>

datatype obj =
    ONull
  | OBool bool
  | OInt int
  | OStr string
  | OList nat "obj list"
  | ODict nat "(string \<times> obj) list"

fun value_of :: "obj \<Rightarrow> json" where
  "value_of ONull = JNull"
| "value_of (OBool b) = JBool b"
| "value_of (OInt i) = JInt i"
| "value_of (OStr s) = JStr s"
| "value_of (OList a xs) = JList (map value_of xs)"
| "value_of (ODict a d) = JDict (map (\<lambda>(k, v). (k, value_of v)) d)"

fun idents :: "obj \<Rightarrow> nat set" where
  "idents (OList a xs) = insert a (\<Union>x\<in>set xs. idents x)"
| "idents (ODict a d) = insert a (\<Union>p\<in>set d. idents (snd p))"
| "idents _ = {}"

fun parts :: "obj \<Rightarrow> obj set" where
  "parts (OList a xs) = insert (OList a xs) (\<Union>x\<in>set xs. parts x)"
| "parts (ODict a d) = insert (ODict a d) (\<Union>p\<in>set d. parts (snd p))"
| "parts _ = {}"

fun ident :: "obj \<Rightarrow> nat option" where
  "ident (OList a xs) = Some a"
| "ident (ODict a d) = Some a"
| "ident _ = None"

definition consistent :: "obj set \<Rightarrow> bool" where
  "consistent objs = (\<forall>x\<in>objs. \<forall>y\<in>objs. ident x = ident y \<longrightarrow> x = y)"

text \<open>
  \<^verbatim>\<open>copy.deepcopy\<close>. A list or a dictionary is copied to a new object, whose
  identity is the next unused number \<open>fresh\<close>, with copies of its elements; immutable
  values are returned as they are. The memo maps the identity of an object already copied
  to its copy, so that an object that occurs twice is copied once.
\<close>

type_synonym memo = "(nat \<times> obj) list"

fun deepcopy_obj :: "obj \<Rightarrow> memo \<times> nat \<Rightarrow> obj \<times> memo \<times> nat"
  and deepcopy_list :: "obj list \<Rightarrow> memo \<times> nat \<Rightarrow> obj list \<times> memo \<times> nat"
  and deepcopy_items ::
    "(string \<times> obj) list \<Rightarrow> memo \<times> nat \<Rightarrow> (string \<times> obj) list \<times> memo \<times> nat"
where
  "deepcopy_obj (OList a xs) (memo, fresh) =
     (case map_of memo a of
        Some y \<Rightarrow> (y, memo, fresh)
      | None \<Rightarrow>
          (case deepcopy_list xs (memo, Suc fresh) of
             (ys, memo', fresh') \<Rightarrow> (OList fresh ys, (a, OList fresh ys) # memo', fresh')))"
| "deepcopy_obj (ODict a d) (memo, fresh) =
     (case map_of memo a of
        Some y \<Rightarrow> (y, memo, fresh)
      | None \<Rightarrow>
          (case deepcopy_items d (memo, Suc fresh) of
             (d', memo', fresh') \<Rightarrow> (ODict fresh d', (a, ODict fresh d') # memo', fresh')))"
| "deepcopy_obj x (memo, fresh) = (x, memo, fresh)"
| "deepcopy_list [] st = ([], st)"
| "deepcopy_list (x # xs) st =
     (case deepcopy_obj x st of
        (y, st') \<Rightarrow> (case deepcopy_list xs st' of (ys, st'') \<Rightarrow> (y # ys, st'')))"
| "deepcopy_items [] st = ([], st)"
| "deepcopy_items ((k, x) # d) st =
     (case deepcopy_obj x st of
        (y, st') \<Rightarrow> (case deepcopy_items d st' of (d', st'') \<Rightarrow> ((k, y) # d', st'')))"

text \<open>
  \<open>type_dict\<close> and \<open>copy_fields\<close> on objects: the same steps as above, with
  \<open>fresh\<close> the first identity not in use.
\<close>

fun hashable_obj :: "obj \<Rightarrow> bool" where
  "hashable_obj (OList _ _) = False"
| "hashable_obj (ODict _ _) = False"
| "hashable_obj _ = True"

definition type_entry_obj :: "obj \<Rightarrow> (string \<times> obj) list \<Rightarrow> error + obj option" where
  "type_entry_obj t dict_types =
     (if \<not> hashable_obj t then Inl TypeError
      else Inr (case t of OStr s \<Rightarrow> map_of dict_types s | _ \<Rightarrow> None))"

definition type_dict_obj ::
  "(string \<times> obj) list \<Rightarrow> (string \<times> obj) list \<Rightarrow> nat \<Rightarrow> error + (string \<times> obj) list"
where
  "type_dict_obj dict_item dict_types fresh =
     (case map_of dict_item ''type'' of
        None \<Rightarrow> Inr (merge_item [] dict_item)
      | Some t \<Rightarrow>
          (case type_entry_obj t dict_types of
             Inl e \<Rightarrow> Inl e
           | Inr None \<Rightarrow> Inr (merge_item [] dict_item)
           | Inr (Some entry) \<Rightarrow>
               (case fst (deepcopy_obj entry ([], fresh)) of
                  ODict a base \<Rightarrow> Inr (merge_item base dict_item)
                | _ \<Rightarrow> Inl AttributeError)))"

fun copy_loop_obj ::
  "(string \<times> obj) list \<Rightarrow> string list \<Rightarrow> (string \<times> obj) list \<Rightarrow> nat \<Rightarrow> (string \<times> obj) list"
where
  "copy_loop_obj dict_item [] result fresh = result"
| "copy_loop_obj dict_item (name # names) result fresh =
     (case map_of dict_item name of
        Some v \<Rightarrow>
          (case deepcopy_obj v ([], fresh) of
             (v', memo, fresh') \<Rightarrow>
               copy_loop_obj dict_item names (setitem result name v') fresh')
      | None \<Rightarrow> copy_loop_obj dict_item names result fresh)"

definition copy_fields_obj ::
  "(string \<times> obj) list \<Rightarrow> string list \<Rightarrow> nat \<Rightarrow> (string \<times> obj) list"
where
  "copy_fields_obj dict_item pick_fields fresh = copy_loop_obj dict_item pick_fields [] fresh"

text \<open>Invariants of the memo, and the values of the entries of a dictionary.\<close>

definition memo_fresh :: "nat \<Rightarrow> memo \<Rightarrow> bool" where
  "memo_fresh n memo = (\<forall>(a, y)\<in>set memo. \<forall>i\<in>idents y. n \<le> i)"

definition memo_ok :: "obj set \<Rightarrow> memo \<Rightarrow> bool" where
  "memo_ok objs memo =
     (\<forall>a y. map_of memo a = Some y \<longrightarrow> (\<exists>x\<in>objs. ident x = Some a \<and> value_of y = value_of x))"

definition items_value :: "(string \<times> obj) list \<Rightarrow> dict" where
  "items_value d = map (\<lambda>(k, v). (k, value_of v)) d"

text \<open>A child, a type table and a course entry as objects.\<close>

definition example_item :: "(string \<times> obj) list" where
  "example_item = [(''type'', OStr ''quiz''), (''tags'', OList 1 [OStr ''x''])]"

definition example_types :: "(string \<times> obj) list" where
  "example_types =
     [(''quiz'', ODict 2 [(''points'', OInt 10), (''grades'', OList 3 [OInt 1, OInt 2])])]"

definition example_entry :: "(string \<times> obj) list" where
  "example_entry = [(''name'', OStr ''Course''), (''assistants'', OList 0 [OStr ''ann''])]"

section \<open>An example course\<close>

text \<open>
  A course with one module of type \<^verbatim>\<open>chapter\<close> and two children, of which one has a
  key and a configuration file; a parser that knows this course under the key
  \<^verbatim>\<open>c1\<close> and its exercise \<^verbatim>\<open>e1\<close>; and a course whose module type
  \<^verbatim>\<open>chapter\<close> is declared with an empty body, which a YAML file loads as
  \<^verbatim>\<open>None\<close>.
\<close>

definition example_exercise :: dict where
  "example_exercise =
     [(''key'', JStr ''e1''), (''title'', JStr ''First''),
      (''view_type'', JStr ''access.types.stdsync.acceptPost'')]"

definition example_course :: dict where
  "example_course =
     [(''key'', JStr ''c1''), (''name'', JStr ''Course''),
      (''module_types'', JDict [(''chapter'', JDict [(''points'', JInt 10), (''type'', JStr ''x'')])]),
      (''exercise_types'', JDict [(''quiz'', JDict [(''max_points'', JInt 5)])]),
      (''modules'', JList
         [JDict [(''key'', JStr ''m1''), (''type'', JStr ''chapter''),
            (''children'', JList
               [JDict [(''key'', JStr ''e1''), (''config'', JStr ''e1.yaml''),
                  (''type'', JStr ''quiz'')],
                JDict [(''title'', JStr ''without key'')]])]])]"


definition example_handler :: handler where
  "example_handler lang request course exercise post_url = Inr (HttpResponse ''exercise page'')"

definition example_env :: "dict \<Rightarrow> env" where
  "example_env course =
     \<lparr>config_course_entry = (\<lambda>key. Inr (if key = ''c1'' then Some course else None)),
      config_exercises =
        (\<lambda>key. Inr (if key = ''c1'' then (Some course, [example_exercise]) else (None, []))),
      config_exercise_entry =
        (\<lambda>course_key key lang.
           Inr (if course_key = JStr ''c1'' \<and> key = JStr ''e1''
                then (Some course, Some example_exercise) else (None, None))),
      reverse = (\<lambda>name args. name),
      render = (\<lambda>template context. template),
      translation_activate = (\<lambda>lang. if hashable lang then Inr () else Inl TypeError),
      import_by_path =
        (\<lambda>path. if path = JStr ''access.types.stdsync.acceptPost''
                then Inr example_handler else Inl ImproperlyConfigured),
      format_value = (\<lambda>v. case v of JStr s \<Rightarrow> s | _ \<Rightarrow> []),
      json_dumps = concat \<circ> map (\<lambda>(k, vs). k @ concat vs),
      decode_text = (\<lambda>bytes. if list_all (\<lambda>c. of_char c < (128 :: nat)) bytes then Some bytes else None),
      STATIC_URL = ''/static/'',
      SUBMISSION_PATH = ''/srv/submissions''\<rparr>"

definition example_request :: request where
  "example_request =
     \<lparr>http_method = ''GET'', is_ajax = False, GET = [], POST = [],
      build_absolute_uri = (\<lambda>path. ''http://grader/'' @ path)\<rparr>"

definition post_request :: "(string \<times> string list) list \<Rightarrow> request" where
  "post_request form = example_request\<lparr>http_method := ''POST'', POST := form\<rparr>"


definition untyped_exercise_env :: env where
  "untyped_exercise_env =
     (example_env example_course)
       \<lparr>config_exercise_entry :=
          \<lambda>course_key key lang. Inr (Some example_course, Some [(''key'', JStr ''e1'')])\<rparr>"

text \<open>
  A course whose language is a list, which cannot be activated; and a submission directory
  in which every path can be written and read, and the same directory write-protected.
\<close>

definition list_lang_course :: dict where
  "list_lang_course = example_course @ [(''lang'', JList [JStr ''fi'', JStr ''en''])]"

definition example_fs :: "(string \<times> node) list \<Rightarrow> filesystem" where
  "example_fs files =
     \<lparr>nodes = map_of files, writable = (\<lambda>path. True), readable = (\<lambda>path. True),
      device_fault = (\<lambda>path text. None)\<rparr>"

definition readonly_fs :: "(string \<times> node) list \<Rightarrow> filesystem" where
  "readonly_fs files = (example_fs files)\<lparr>writable := (\<lambda>path. False)\<rparr>"

section \<open>Properties of the dictionary helpers\<close>

lemma map_of_setitem: "map_of (setitem d k v) = (map_of d)(k \<mapsto> v)"
  by (simp add: setitem_def update_conv')

lemma map_of_delitem: "map_of (delitem d k) = (map_of d)(k := None)"
  by (simp add: delitem_def delete_conv')

lemma pick_entry_ok:
  "\<forall>name\<in>set names. map_of entry name \<noteq> None \<Longrightarrow>
   \<exists>r. pick_entry entry names acc = Inr r \<and>
       map_of r = (\<lambda>k. if k \<in> set names then map_of entry k else map_of acc k)"
proof (induction names arbitrary: acc)
  case Nil
  then show ?case by simp
next
  case (Cons name names)
  from Cons.prems obtain v where v: "map_of entry name = Some v" by auto
  from Cons.prems have "\<forall>n\<in>set names. map_of entry n \<noteq> None" by simp
  from Cons.IH [OF this, of "setitem acc name v"] obtain r where
    r: "pick_entry entry names (setitem acc name v) = Inr r"
       "map_of r = (\<lambda>k. if k \<in> set names then map_of entry k else map_of (setitem acc name v) k)"
    by blast
  show ?case
    using r v by (auto simp: getitem_def map_of_setitem fun_eq_iff)
qed

lemma pick_entry_fails:
  "\<exists>name\<in>set names. map_of entry name = None \<Longrightarrow> pick_entry entry names acc = Inl KeyError"
  by (induction names arbitrary: acc) (auto simp: getitem_def split: option.splits)

lemma filter_loop_ok:
  "\<forall>entry\<in>set dict_list. \<forall>name\<in>set pick_fields. map_of entry name \<noteq> None \<Longrightarrow>
   \<exists>rs. filter_loop dict_list pick_fields acc = Inr (acc @ rs) \<and> length rs = length dict_list \<and>
        (\<forall>i<length dict_list. map_of (rs ! i) = map_of (dict_list ! i) |` set pick_fields)"
proof (induction dict_list arbitrary: acc)
  case Nil
  then show ?case by simp
next
  case (Cons entry rest)
  from Cons.prems have "\<forall>name\<in>set pick_fields. map_of entry name \<noteq> None" by simp
  from pick_entry_ok [OF this, of "[]"] obtain r where
    r: "pick_entry entry pick_fields [] = Inr r"
       "map_of r = (\<lambda>k. if k \<in> set pick_fields then map_of entry k else map_of [] k)"
    by blast
  from Cons.prems have "\<forall>e\<in>set rest. \<forall>name\<in>set pick_fields. map_of e name \<noteq> None" by simp
  from Cons.IH [OF this, of "acc @ [r]"] obtain rs where
    rs: "filter_loop rest pick_fields (acc @ [r]) = Inr ((acc @ [r]) @ rs)"
        "length rs = length rest"
        "\<forall>i<length rest. map_of (rs ! i) = map_of (rest ! i) |` set pick_fields"
    by blast
  have "map_of r = map_of entry |` set pick_fields"
    using r(2) by (auto simp: restrict_map_def fun_eq_iff)
  then have "\<forall>i<length (entry # rest). map_of ((r # rs) ! i) = map_of ((entry # rest) ! i) |` set pick_fields"
    using rs(3) by (auto simp: nth_Cons split: nat.splits)
  then show ?case
    using r(1) rs(1,2) by (intro exI [of _ "r # rs"]) simp
qed

lemma filter_loop_fails:
  "\<exists>entry\<in>set dict_list. \<exists>name\<in>set pick_fields. map_of entry name = None \<Longrightarrow>
   filter_loop dict_list pick_fields acc = Inl KeyError"
proof (induction dict_list arbitrary: acc)
  case Nil
  then show ?case by simp
next
  case (Cons entry rest)
  show ?case
  proof (cases "\<exists>name\<in>set pick_fields. map_of entry name = None")
    case True
    then show ?thesis by (simp add: pick_entry_fails)
  next
    case False
    then have ok: "\<forall>name\<in>set pick_fields. map_of entry name \<noteq> None" by simp
    from pick_entry_ok [OF ok, of "[]"] obtain r where "pick_entry entry pick_fields [] = Inr r"
      by auto
    moreover from Cons.prems False
    have "\<exists>e\<in>set rest. \<exists>name\<in>set pick_fields. map_of e name = None" by auto
    ultimately show ?thesis using Cons.IH by simp
  qed
qed

lemma map_of_copy_loop:
  "map_of (copy_loop dict_item names acc) =
     (\<lambda>k. if k \<in> set names \<and> map_of dict_item k \<noteq> None then map_of dict_item k else map_of acc k)"
proof (induction names arbitrary: acc)
  case Nil
  then show ?case by simp
next
  case (Cons name names)
  show ?case
    by (auto simp: Cons.IH map_of_setitem deepcopy_def fun_eq_iff split: option.splits)
qed

lemma map_of_copy_fields:
  "map_of (copy_fields dict_item pick_fields) = map_of dict_item |` set pick_fields"
  by (auto simp: copy_fields_def map_of_copy_loop restrict_map_def fun_eq_iff)

lemma map_of_rev_distinct:
  "distinct (map fst xs) \<Longrightarrow> map_of (rev xs) = map_of xs"
proof (induction xs)
  case Nil
  then show ?case by simp
next
  case (Cons p xs)
  then have "fst p \<notin> dom (map_of xs)" by (simp add: dom_map_of_conv_image_fst)
  then have "map_of xs (fst p) = None" by blast
  with Cons show ?case
    by (auto simp: map_add_def fun_eq_iff split: option.splits)
qed

lemma map_of_dict_update:
  "map_of (dict_update base other) = map_of base ++ map_of (rev other)"
proof (induction other arbitrary: base)
  case Nil
  then show ?case by simp
next
  case (Cons p other)
  obtain k v where p: "p = (k, v)" by (cases p)
  show ?case
    unfolding p by (simp add: Cons.IH map_of_setitem fun_eq_iff map_add_def split: option.splits)
qed

lemma map_of_merge_item:
  "map_of (merge_item base dict_item) = (map_of base ++ map_of (rev dict_item))(''type'' := None)"
  by (auto simp: merge_item_def Let_def map_of_delitem map_of_dict_update fun_eq_iff)

lemma merge_item_lookup:
  "distinct (map fst dict_item) \<Longrightarrow>
   map_of (merge_item base dict_item) k =
     (if k = ''type'' then None
      else case map_of dict_item k of Some v \<Rightarrow> Some v | None \<Rightarrow> map_of base k)"
  by (simp add: map_of_merge_item map_of_rev_distinct map_add_def)

lemma merge_item_no_type: "map_of (merge_item base dict_item) ''type'' = None"
  by (simp add: map_of_merge_item)

lemma type_dict_no_type: "type_dict dict_item dict_types = Inr r \<Longrightarrow> map_of r ''type'' = None"
  by (auto simp: type_dict_def merge_item_no_type split: option.splits sum.splits json.splits)

section \<open>Properties of the feed\<close>

declare children_recursion.simps [simp del]

lemma distinct_setitem: "distinct (map fst d) \<Longrightarrow> distinct (map fst (setitem d k v))"
  by (simp add: setitem_def distinct_update)

lemma distinct_dict_update:
  "distinct (map fst base) \<Longrightarrow> distinct (map fst (dict_update base other))"
  by (induction base other rule: dict_update.induct) (simp_all add: distinct_setitem)

lemma child_fields_distinct:
  "child_fields env request course o' = Inr of' \<Longrightarrow> distinct (map fst of')"
  by (auto simp: child_fields_def and_then_def split: if_splits sum.splits option.splits prod.splits)

lemma type_dict_keeps_item:
  assumes "type_dict dict_item dict_types = Inr r" "distinct (map fst dict_item)"
    "k \<noteq> ''type''" "map_of dict_item k = Some v"
  shows "map_of r k = Some v"
proof -
  from assms(1) obtain base where "r = merge_item base dict_item"
    by (auto simp: type_dict_def split: option.splits sum.splits json.splits)
  with assms(2-4) show ?thesis by (simp add: merge_item_lookup)
qed

lemma typed_child_no_type:
  assumes "type_dict (setitem (dict_update of' o') ''children'' (JList children)) types = Inr typed"
    and "distinct (map fst of')" and "list_all no_type_field children"
  shows "no_type_field (JDict typed)"
proof -
  let ?item = "setitem (dict_update of' o') ''children'' (JList children)"
  have d: "distinct (map fst ?item)"
    using assms(2) by (simp add: distinct_setitem distinct_dict_update)
  have c: "map_of ?item ''children'' = Some (JList children)"
    by (simp add: map_of_setitem)
  have "map_of typed ''children'' = Some (JList children)"
    by (rule type_dict_keeps_item [OF assms(1) d _ c]) simp
  moreover have "map_of typed ''type'' = None"
    using assms(1) by (rule type_dict_no_type)
  ultimately show ?thesis using assms(3) by simp
qed

lemma children_no_type:
  "(children_recursion env request course parent = Inr children \<longrightarrow>
      list_all no_type_field children)"
  "(children_loop env request course xs acc = Inr result \<longrightarrow> list_all no_type_field acc \<longrightarrow>
      list_all no_type_field result)"
proof (induction env request course parent and env request course xs acc
    arbitrary: children and result rule: children_recursion_children_loop.induct)
  case (1 env request course parent)
  show ?case
  proof
    assume r: "children_recursion env request course parent = Inr children"
    show "list_all no_type_field children"
    proof (cases "map_of parent ''children''")
      case None
      with r show ?thesis by (simp add: children_recursion.simps)
    next
      case (Some v)
      with r obtain cs where v: "v = JList cs" and d: "list_all is_dict cs"
        and loop: "children_loop env request course (filter has_key cs) [] = Inr children"
        by (auto simp: children_recursion.simps split: json.splits if_splits)
      from "1.IH" [OF Some v d, of children] loop show ?thesis by simp
    qed
  qed
next
  case (2 env request course result)
  then show ?case by simp
next
  case (3 env request course x rest acc)
  show ?case
  proof (intro impI)
    assume r: "children_loop env request course (x # rest) acc = Inr result"
      and acc: "list_all no_type_field acc"
    from r obtain o' where x: "x = JDict o'" by (cases x) simp_all
    from r x obtain of' where f: "child_fields env request course o' = Inr of'"
      by (cases "child_fields env request course o'") (simp_all add: and_then_def)
    from r x f obtain children where c: "children_recursion env request course o' = Inr children"
      by (cases "children_recursion env request course o'") (simp_all add: and_then_def)
    from r x f c obtain types where t: "dict_get course ''exercise_types'' (JDict []) = JDict types"
      by (cases "dict_get course ''exercise_types'' (JDict [])") (simp_all add: and_then_def)
    from r x f c t obtain typed where
      ty: "type_dict (setitem (dict_update of' o') ''children'' (JList children)) types = Inr typed"
      by (cases "type_dict (setitem (dict_update of' o') ''children'' (JList children)) types")
         (simp_all add: and_then_def)
    from r x f c t ty have rest: "children_loop env request course rest (acc @ [JDict typed]) = Inr result"
      by (simp add: and_then_def)
    from "3.IH"(1) [OF x f, of children] c have cs: "list_all no_type_field children" by simp
    from ty child_fields_distinct [OF f] cs have "no_type_field (JDict typed)"
      by (rule typed_child_no_type)
    with acc have "list_all no_type_field (acc @ [JDict typed])" by simp
    with "3.IH"(2) [OF x f c t ty, of result] rest show "list_all no_type_field result" by simp
  qed
qed




lemma modules_loop_result:
  "modules_loop env request course ms acc = Inr result \<Longrightarrow>
   \<exists>modules. result = acc @ modules \<and> length modules = length ms \<and>
     (\<forall>i<length ms. \<exists>m module_types mf children.
        ms ! i = JDict m \<and>
        dict_get course ''module_types'' (JDict []) = JDict module_types \<and>
        type_dict m module_types = Inr mf \<and>
        children_recursion env request course m = Inr children \<and>
        modules ! i = JDict (setitem mf ''children'' (JList children)))"
proof (induction ms arbitrary: acc)
  case Nil
  then show ?case by simp
next
  case (Cons x rest)
  from Cons.prems obtain m where x: "x = JDict m" by (cases x) simp_all
  from Cons.prems x obtain module_types where
    t: "dict_get course ''module_types'' (JDict []) = JDict module_types"
    by (cases "dict_get course ''module_types'' (JDict [])") simp_all
  from Cons.prems x t obtain mf where mf: "type_dict m module_types = Inr mf"
    by (cases "type_dict m module_types") (simp_all add: and_then_def)
  from Cons.prems x t mf obtain children where
    c: "children_recursion env request course m = Inr children"
    by (cases "children_recursion env request course m") (simp_all add: and_then_def)
  let ?e = "JDict (setitem mf ''children'' (JList children))"
  from Cons.prems x t mf c have "modules_loop env request course rest (acc @ [?e]) = Inr result"
    by (simp add: and_then_def)
  from Cons.IH [OF this] obtain modules where
    r: "result = (acc @ [?e]) @ modules" and l: "length modules = length rest"
    and each: "\<forall>i<length rest. \<exists>m module_types mf children.
        rest ! i = JDict m \<and>
        dict_get course ''module_types'' (JDict []) = JDict module_types \<and>
        type_dict m module_types = Inr mf \<and>
        children_recursion env request course m = Inr children \<and>
        modules ! i = JDict (setitem mf ''children'' (JList children))"
    by blast
  have "\<forall>i<length (x # rest). \<exists>m module_types mf children.
        (x # rest) ! i = JDict m \<and>
        dict_get course ''module_types'' (JDict []) = JDict module_types \<and>
        type_dict m module_types = Inr mf \<and>
        children_recursion env request course m = Inr children \<and>
        (?e # modules) ! i = JDict (setitem mf ''children'' (JList children))"
  proof (intro allI impI)
    fix i
    assume "i < length (x # rest)"
    show "\<exists>m module_types mf children.
        (x # rest) ! i = JDict m \<and>
        dict_get course ''module_types'' (JDict []) = JDict module_types \<and>
        type_dict m module_types = Inr mf \<and>
        children_recursion env request course m = Inr children \<and>
        (?e # modules) ! i = JDict (setitem mf ''children'' (JList children))"
    proof (cases i)
      case 0
      with x t mf c show ?thesis by simp
    next
      case (Suc j)
      with \<open>i < length (x # rest)\<close> have "j < length rest" by simp
      with each Suc show ?thesis by simp
    qed
  qed
  with r l show ?case by (intro exI [of _ "?e # modules"]) simp
qed

lemma modules_loop_no_type:
  assumes "modules_loop env request course ms [] = Inr result"
  shows "list_all no_type_field result"
proof -
  from modules_loop_result [OF assms] have l: "length result = length ms"
    and each: "\<forall>i<length ms. \<exists>m module_types mf children.
        ms ! i = JDict m \<and>
        dict_get course ''module_types'' (JDict []) = JDict module_types \<and>
        type_dict m module_types = Inr mf \<and>
        children_recursion env request course m = Inr children \<and>
        result ! i = JDict (setitem mf ''children'' (JList children))"
    by auto
  have "no_type_field (result ! i)" if "i < length result" for i
  proof -
    from that l each obtain m module_types mf children where
      mf: "type_dict m module_types = Inr mf"
      and c: "children_recursion env request course m = Inr children"
      and e: "result ! i = JDict (setitem mf ''children'' (JList children))"
      by auto
    from c have "list_all no_type_field children" using children_no_type(1) by blast
    moreover from mf have "map_of mf ''type'' = None" by (rule type_dict_no_type)
    ultimately show ?thesis using e by (simp add: map_of_setitem)
  qed
  then show ?thesis by (simp add: list_all_length)
qed

lemma dict_of_dicts_entry:
  "dict_of_dicts (JDict types) \<Longrightarrow> map_of types s = Some v \<Longrightarrow> \<exists>base. v = JDict base"
  by (cases v) (auto simp: list_all_iff dest!: map_of_SomeD)

lemma type_dict_total:
  assumes "case map_of item ''type'' of Some t \<Rightarrow> hashable t | None \<Rightarrow> True"
    and "dict_of_dicts (JDict types)"
  shows "\<exists>r. type_dict item types = Inr r"
proof (cases "map_of item ''type''")
  case None
  then show ?thesis by (simp add: type_dict_def)
next
  case (Some t)
  with assms(1) have h: "hashable t" by simp
  show ?thesis
  proof (cases "type_entry t types")
    case (Inl e)
    with h show ?thesis by (simp add: type_entry_def)
  next
    case (Inr entry)
    show ?thesis
    proof (cases entry)
      case None
      with Some Inr show ?thesis by (simp add: type_dict_def)
    next
      case (Some v)
      with Inr h obtain s where "map_of types s = Some v"
        by (cases t) (auto simp: type_entry_def)
      from dict_of_dicts_entry [OF assms(2) this] obtain base where "v = JDict base" ..
      with \<open>map_of item ''type'' = Some t\<close> Inr Some show ?thesis
        by (simp add: type_dict_def deepcopy_def)
    qed
  qed
qed

lemma child_fields_total:
  assumes "child_known env course (JDict o')" and "map_of o' ''key'' \<noteq> None"
  shows "\<exists>of'. child_fields env request course o' = Inr of' \<and> map_of of' ''type'' = None"
proof (cases "map_of o' ''config'' \<noteq> None")
  case True
  with assms have "exercise_known env course o'" by simp
  then obtain course_key key c exercise ek where
    "map_of course ''key'' = Some course_key" "map_of o' ''key'' = Some key"
    "config_exercise_entry env course_key key None = Inr (c, Some exercise)"
    "map_of exercise ''key'' = Some ek"
    by (auto simp: exercise_known_def split: option.splits sum.splits prod.splits)
  with True show ?thesis
    by (simp add: child_fields_def and_then_def getitem_def)
next
  case False
  with assms show ?thesis
    by (auto simp: child_fields_def and_then_def getitem_def split: option.splits)
qed

lemma children_total:
  "well_formed env course (JDict parent) \<longrightarrow>
   dict_of_dicts (dict_get course ''exercise_types'' (JDict [])) \<longrightarrow>
     (\<exists>children. children_recursion env request course parent = Inr children)"
  "list_all is_dict xs \<longrightarrow> list_all has_key xs \<longrightarrow>
   list_all (\<lambda>c. child_known env course c \<and> well_formed env course c) xs \<longrightarrow>
   dict_of_dicts (dict_get course ''exercise_types'' (JDict [])) \<longrightarrow>
     (\<exists>result. children_loop env request course xs acc = Inr result)"
proof (induction env request course parent and env request course xs acc
    rule: children_recursion_children_loop.induct)
  case (1 env request course parent)
  show ?case
  proof (intro impI)
    assume wf: "well_formed env course (JDict parent)"
      and ty: "dict_of_dicts (dict_get course ''exercise_types'' (JDict []))"
    show "\<exists>children. children_recursion env request course parent = Inr children"
    proof (cases "map_of parent ''children''")
      case None
      then show ?thesis by (simp add: children_recursion.simps)
    next
      case (Some v)
      with wf obtain cs where v: "v = JList cs" and d: "list_all is_dict cs"
        and k: "list_all (\<lambda>c. child_known env course c \<and> well_formed env course c)
                  (filter has_key cs)"
        by (cases v) simp_all
      from d have "list_all is_dict (filter has_key cs)" by (simp add: list_all_iff)
      moreover have "list_all has_key (filter has_key cs)" by (simp add: list_all_iff)
      ultimately have "\<exists>result. children_loop env request course (filter has_key cs) [] = Inr result"
        using "1.IH" [OF Some v d] k ty by blast
      with Some v d show ?thesis by (simp add: children_recursion.simps)
    qed
  qed
next
  case (2 env request course result)
  then show ?case by simp
next
  case (3 env request course x rest acc)
  show ?case
  proof (intro impI)
    assume d: "list_all is_dict (x # rest)" and hk: "list_all has_key (x # rest)"
      and k: "list_all (\<lambda>c. child_known env course c \<and> well_formed env course c) (x # rest)"
      and ty: "dict_of_dicts (dict_get course ''exercise_types'' (JDict []))"
    from d obtain o' where x: "x = JDict o'" by (cases x) simp_all
    from hk x have key: "map_of o' ''key'' \<noteq> None" by simp
    from k x have known: "child_known env course (JDict o')"
      and wf: "well_formed env course (JDict o')" by simp_all
    from child_fields_total [OF known key] obtain of' where
      f: "child_fields env request course o' = Inr of'" and nt: "map_of of' ''type'' = None"
      by blast
    from "3.IH"(1) [OF x f] wf ty obtain children where
      c: "children_recursion env request course o' = Inr children" by blast
    from ty obtain types where t: "dict_get course ''exercise_types'' (JDict []) = JDict types"
      by (cases "dict_get course ''exercise_types'' (JDict [])") simp_all
    let ?item = "setitem (dict_update of' o') ''children'' (JList children)"
    from wf have dist: "distinct (map fst o')" by simp
    have "map_of ?item ''type'' = map_of o' ''type''"
      using nt by (simp add: map_of_setitem map_of_dict_update map_of_rev_distinct [OF dist]
          map_add_def split: option.splits)
    with wf have "case map_of ?item ''type'' of Some t \<Rightarrow> hashable t | None \<Rightarrow> True"
      by simp
    from type_dict_total [OF this] ty t obtain typed where
      td: "type_dict ?item types = Inr typed" by auto
    from d hk k have "list_all is_dict rest" "list_all has_key rest"
      "list_all (\<lambda>c. child_known env course c \<and> well_formed env course c) rest" by simp_all
    with "3.IH"(2) [OF x f c t td] ty obtain result where
      "children_loop env request course rest (acc @ [JDict typed]) = Inr result" by blast
    with x f c t td show "\<exists>result. children_loop env request course (x # rest) acc = Inr result"
      by (simp add: and_then_def)
  qed
qed

lemma modules_loop_total:
  assumes "list_all (well_formed env course) ms"
    and "dict_of_dicts (dict_get course ''module_types'' (JDict []))"
    and "dict_of_dicts (dict_get course ''exercise_types'' (JDict []))"
  shows "\<exists>result. modules_loop env request course ms acc = Inr result"
  using assms(1)
proof (induction ms arbitrary: acc)
  case Nil
  then show ?case by simp
next
  case (Cons x rest)
  then obtain m where x: "x = JDict m" and wf: "well_formed env course (JDict m)"
    by (cases x) simp_all
  from assms(2) obtain types where t: "dict_get course ''module_types'' (JDict []) = JDict types"
    by (cases "dict_get course ''module_types'' (JDict [])") simp_all
  from wf have "case map_of m ''type'' of Some t \<Rightarrow> hashable t | None \<Rightarrow> True" by simp
  from type_dict_total [OF this] assms(2) t obtain mf where mf: "type_dict m types = Inr mf"
    by auto
  from children_total(1) [of env course m request] wf assms(3) obtain children where
    c: "children_recursion env request course m = Inr children" by blast
  from Cons.prems have "list_all (well_formed env course) rest" by simp
  from Cons.IH [OF this] obtain result where
    "modules_loop env request course rest
       (acc @ [JDict (setitem mf ''children'' (JList children))]) = Inr result" by blast
  with x t mf c show ?case by (simp add: and_then_def)
qed

lemma aplus_json_result:
  assumes "config_course_entry env course_key = Inr (Some course)"
    and "aplus_json env request course_key = Inr resp"
  shows "\<exists>modules.
           resp = JsonResponse (JDict (setitem (copy_fields course course_fields) ''modules''
                    (JList modules))) \<and>
           (case map_of course ''modules'' of
              None \<Rightarrow> modules = []
            | Some v \<Rightarrow> \<exists>ms. v = JList ms \<and> modules_loop env request course ms [] = Inr modules)"
proof (cases "map_of course ''modules''")
  case None
  with assms show ?thesis by (auto simp: aplus_json_def and_then_def)
next
  case (Some v)
  with assms obtain ms where v: "v = JList ms"
    by (cases v) (simp_all add: aplus_json_def and_then_def)
  from assms Some v obtain modules where "modules_loop env request course ms [] = Inr modules"
    by (cases "modules_loop env request course ms []") (simp_all add: aplus_json_def and_then_def)
  with assms Some v show ?thesis by (auto simp: aplus_json_def and_then_def)
qed


lemma aplus_json_total:
  assumes "config_course_entry env course_key = Inr (Some course)" and "feed_ready env course"
  shows "\<exists>data. aplus_json env request course_key = Inr (JsonResponse (JDict data))"
proof (cases "map_of course ''modules''")
  case None
  with assms(1) show ?thesis by (simp add: aplus_json_def and_then_def)
next
  case (Some v)
  with assms(2) obtain ms where v: "v = JList ms" and wf: "list_all (well_formed env course) ms"
    by (cases v) (simp_all add: feed_ready_def)
  from assms(2) have "dict_of_dicts (dict_get course ''module_types'' (JDict []))"
    "dict_of_dicts (dict_get course ''exercise_types'' (JDict []))"
    by (simp_all add: feed_ready_def)
  from modules_loop_total [OF wf this] obtain modules where
    "modules_loop env request course ms [] = Inr modules" by blast
  with assms(1) Some v show ?thesis by (simp add: aplus_json_def and_then_def)
qed

lemma aplus_json_no_type:
  assumes "aplus_json env request course_key = Inr (JsonResponse data)"
  shows "\<exists>d modules. data = JDict d \<and> map_of d ''modules'' = Some (JList modules) \<and>
           list_all no_type_field modules"
proof -
  from assms obtain course where c: "config_course_entry env course_key = Inr (Some course)"
    by (cases "config_course_entry env course_key")
       (auto simp: aplus_json_def and_then_def split: option.splits)
  from aplus_json_result [OF c assms] obtain modules where
    data: "data = JDict (setitem (copy_fields course course_fields) ''modules'' (JList modules))"
    and m: "case map_of course ''modules'' of
              None \<Rightarrow> modules = []
            | Some v \<Rightarrow> \<exists>ms. v = JList ms \<and> modules_loop env request course ms [] = Inr modules"
    by auto
  have "list_all no_type_field modules"
  proof (cases "map_of course ''modules''")
    case None
    with m show ?thesis by simp
  next
    case (Some v)
    with m obtain ms where "modules_loop env request course ms [] = Inr modules" by auto
    then show ?thesis by (rule modules_loop_no_type)
  qed
  with data show ?thesis by (simp add: map_of_setitem)
qed

lemma children_recursion_no_children:
  "map_of parent ''children'' = None \<Longrightarrow> children_recursion env request course parent = Inr []"
  by (simp add: children_recursion.simps)

lemma example_course_entry:
  "config_course_entry (example_env course) ''c1'' = Inr (Some course)"
  by (simp add: example_env_def)

lemma example_feed_ready: "feed_ready (example_env example_course) example_course"
  by (simp add: feed_ready_def example_course_def dict_get_def exercise_known_def example_env_def
      example_exercise_def)


section \<open>Properties of deep copies\<close>

lemma memo_fresh_lookup:
  "memo_fresh n memo \<Longrightarrow> map_of memo a = Some y \<Longrightarrow> i \<in> idents y \<Longrightarrow> n \<le> i"
  by (auto simp: memo_fresh_def dest!: map_of_SomeD)

lemma memo_fresh_Cons:
  "memo_fresh n ((a, y) # memo) = ((\<forall>i\<in>idents y. n \<le> i) \<and> memo_fresh n memo)"
  by (simp add: memo_fresh_def)

lemma deepcopy_fresh:
  "n \<le> snd st \<longrightarrow> memo_fresh n (fst st) \<longrightarrow>
     snd st \<le> snd (snd (deepcopy_obj x st)) \<and>
     memo_fresh n (fst (snd (deepcopy_obj x st))) \<and>
     (\<forall>i\<in>idents (fst (deepcopy_obj x st)). n \<le> i)"
  "n \<le> snd st \<longrightarrow> memo_fresh n (fst st) \<longrightarrow>
     snd st \<le> snd (snd (deepcopy_list xs st)) \<and>
     memo_fresh n (fst (snd (deepcopy_list xs st))) \<and>
     (\<forall>y\<in>set (fst (deepcopy_list xs st)). \<forall>i\<in>idents y. n \<le> i)"
  "n \<le> snd st \<longrightarrow> memo_fresh n (fst st) \<longrightarrow>
     snd st \<le> snd (snd (deepcopy_items d st)) \<and>
     memo_fresh n (fst (snd (deepcopy_items d st))) \<and>
     (\<forall>p\<in>set (fst (deepcopy_items d st)). \<forall>i\<in>idents (snd p). n \<le> i)"
proof (induction x st and xs st and d st rule: deepcopy_obj_deepcopy_list_deepcopy_items.induct)
  case (1 a xs memo fresh)
  show ?case
  proof (cases "map_of memo a")
    case None
    obtain ys memo' fresh' where r: "deepcopy_list xs (memo, Suc fresh) = (ys, memo', fresh')"
      by (cases "deepcopy_list xs (memo, Suc fresh)")
    show ?thesis
    proof (intro impI)
      assume "n \<le> snd (memo, fresh)" "memo_fresh n (fst (memo, fresh))"
      with "1.IH" [OF None] r have "Suc fresh \<le> fresh'" "memo_fresh n memo'"
        "\<forall>y\<in>set ys. \<forall>i\<in>idents y. n \<le> i" by simp_all
      with \<open>n \<le> snd (memo, fresh)\<close> None r
      show "snd (memo, fresh) \<le> snd (snd (deepcopy_obj (OList a xs) (memo, fresh))) \<and>
        memo_fresh n (fst (snd (deepcopy_obj (OList a xs) (memo, fresh)))) \<and>
        (\<forall>i\<in>idents (fst (deepcopy_obj (OList a xs) (memo, fresh))). n \<le> i)"
        by (simp add: memo_fresh_Cons)
    qed
  next
    case (Some y)
    then show ?thesis by (auto dest: memo_fresh_lookup)
  qed
next
  case (2 a d memo fresh)
  show ?case
  proof (cases "map_of memo a")
    case None
    obtain d' memo' fresh' where r: "deepcopy_items d (memo, Suc fresh) = (d', memo', fresh')"
      by (cases "deepcopy_items d (memo, Suc fresh)")
    show ?thesis
    proof (intro impI)
      assume "n \<le> snd (memo, fresh)" "memo_fresh n (fst (memo, fresh))"
      with "2.IH" [OF None] r have "Suc fresh \<le> fresh'" "memo_fresh n memo'"
        "\<forall>p\<in>set d'. \<forall>i\<in>idents (snd p). n \<le> i" by simp_all
      with \<open>n \<le> snd (memo, fresh)\<close> None r
      show "snd (memo, fresh) \<le> snd (snd (deepcopy_obj (ODict a d) (memo, fresh))) \<and>
        memo_fresh n (fst (snd (deepcopy_obj (ODict a d) (memo, fresh)))) \<and>
        (\<forall>i\<in>idents (fst (deepcopy_obj (ODict a d) (memo, fresh))). n \<le> i)"
        by (auto simp: memo_fresh_Cons)
    qed
  next
    case (Some y)
    then show ?thesis by (auto dest: memo_fresh_lookup)
  qed
next
  case (5 x xs st)
  obtain y st' where y: "deepcopy_obj x st = (y, st')" by (cases "deepcopy_obj x st")
  obtain ys st'' where ys: "deepcopy_list xs st' = (ys, st'')" by (cases "deepcopy_list xs st'")
  show ?case
  proof (intro impI)
    assume a: "n \<le> snd st" "memo_fresh n (fst st)"
    with "5.IH"(1) y have 1: "snd st \<le> snd st'" "memo_fresh n (fst st')" "\<forall>i\<in>idents y. n \<le> i"
      by simp_all
    with a have "n \<le> snd st'" by simp
    with "5.IH"(2) [OF y [symmetric]] 1 ys have "snd st' \<le> snd st''" "memo_fresh n (fst st'')"
      "\<forall>y\<in>set ys. \<forall>i\<in>idents y. n \<le> i" by simp_all
    with 1 y ys show "snd st \<le> snd (snd (deepcopy_list (x # xs) st)) \<and>
      memo_fresh n (fst (snd (deepcopy_list (x # xs) st))) \<and>
      (\<forall>y\<in>set (fst (deepcopy_list (x # xs) st)). \<forall>i\<in>idents y. n \<le> i)"
      by simp
  qed
next
  case (7 k x d st)
  obtain y st' where y: "deepcopy_obj x st = (y, st')" by (cases "deepcopy_obj x st")
  obtain d' st'' where d': "deepcopy_items d st' = (d', st'')" by (cases "deepcopy_items d st'")
  show ?case
  proof (intro impI)
    assume a: "n \<le> snd st" "memo_fresh n (fst st)"
    with "7.IH"(1) y have 1: "snd st \<le> snd st'" "memo_fresh n (fst st')" "\<forall>i\<in>idents y. n \<le> i"
      by simp_all
    with a have "n \<le> snd st'" by simp
    with "7.IH"(2) [OF y [symmetric]] 1 d' have "snd st' \<le> snd st''" "memo_fresh n (fst st'')"
      "\<forall>p\<in>set d'. \<forall>i\<in>idents (snd p). n \<le> i" by simp_all
    with 1 y d' show "snd st \<le> snd (snd (deepcopy_items ((k, x) # d) st)) \<and>
      memo_fresh n (fst (snd (deepcopy_items ((k, x) # d) st))) \<and>
      (\<forall>p\<in>set (fst (deepcopy_items ((k, x) # d) st)). \<forall>i\<in>idents (snd p). n \<le> i)"
      by simp
  qed
qed simp_all

lemma memo_ok_Cons:
  "memo_ok objs memo \<Longrightarrow> x \<in> objs \<Longrightarrow> ident x = Some a \<Longrightarrow> value_of y = value_of x \<Longrightarrow>
   memo_ok objs ((a, y) # memo)"
  by (auto simp: memo_ok_def)

lemma memo_ok_hit:
  assumes "memo_ok objs memo" "map_of memo a = Some y" "consistent objs" "x \<in> objs"
    "ident x = Some a"
  shows "value_of y = value_of x"
proof -
  from assms(1,2) obtain x' where "x' \<in> objs" "ident x' = Some a" "value_of y = value_of x'"
    by (auto simp: memo_ok_def)
  moreover with assms(3-5) have "x' = x" by (auto simp: consistent_def)
  ultimately show ?thesis by simp
qed

lemma deepcopy_value:
  "parts x \<subseteq> objs \<longrightarrow> consistent objs \<longrightarrow> memo_ok objs (fst st) \<longrightarrow>
     value_of (fst (deepcopy_obj x st)) = value_of x \<and>
     memo_ok objs (fst (snd (deepcopy_obj x st)))"
  "(\<Union>x\<in>set xs. parts x) \<subseteq> objs \<longrightarrow> consistent objs \<longrightarrow> memo_ok objs (fst st) \<longrightarrow>
     map value_of (fst (deepcopy_list xs st)) = map value_of xs \<and>
     memo_ok objs (fst (snd (deepcopy_list xs st)))"
  "(\<Union>p\<in>set d. parts (snd p)) \<subseteq> objs \<longrightarrow> consistent objs \<longrightarrow> memo_ok objs (fst st) \<longrightarrow>
     map (\<lambda>(k, v). (k, value_of v)) (fst (deepcopy_items d st)) =
       map (\<lambda>(k, v). (k, value_of v)) d \<and>
     memo_ok objs (fst (snd (deepcopy_items d st)))"
proof (induction x st and xs st and d st rule: deepcopy_obj_deepcopy_list_deepcopy_items.induct)
  case (1 a xs memo fresh)
  show ?case
  proof (intro impI)
    assume sub: "parts (OList a xs) \<subseteq> objs" and con: "consistent objs"
      and ok: "memo_ok objs (fst (memo, fresh))"
    from sub have x: "OList a xs \<in> objs" and sub': "(\<Union>x\<in>set xs. parts x) \<subseteq> objs" by auto
    show "value_of (fst (deepcopy_obj (OList a xs) (memo, fresh))) = value_of (OList a xs) \<and>
      memo_ok objs (fst (snd (deepcopy_obj (OList a xs) (memo, fresh))))"
    proof (cases "map_of memo a")
      case None
      obtain ys memo' fresh' where r: "deepcopy_list xs (memo, Suc fresh) = (ys, memo', fresh')"
        by (cases "deepcopy_list xs (memo, Suc fresh)")
      from "1.IH" [OF None] sub' con ok r have v: "map value_of ys = map value_of xs"
        and ok': "memo_ok objs memo'" by simp_all
      from v have "value_of (OList fresh ys) = value_of (OList a xs)" by simp
      moreover from this have "memo_ok objs ((a, OList fresh ys) # memo')"
        by (intro memo_ok_Cons [OF ok' x]) simp_all
      ultimately show ?thesis using None r by simp
    next
      case (Some y)
      from ok have "memo_ok objs memo" by simp
      from memo_ok_hit [OF this Some con x] have "value_of y = value_of (OList a xs)" by simp
      with Some ok show ?thesis by simp
    qed
  qed
next
  case (2 a d memo fresh)
  show ?case
  proof (intro impI)
    assume sub: "parts (ODict a d) \<subseteq> objs" and con: "consistent objs"
      and ok: "memo_ok objs (fst (memo, fresh))"
    from sub have x: "ODict a d \<in> objs" and sub': "(\<Union>p\<in>set d. parts (snd p)) \<subseteq> objs"
      by auto
    show "value_of (fst (deepcopy_obj (ODict a d) (memo, fresh))) = value_of (ODict a d) \<and>
      memo_ok objs (fst (snd (deepcopy_obj (ODict a d) (memo, fresh))))"
    proof (cases "map_of memo a")
      case None
      obtain d' memo' fresh' where r: "deepcopy_items d (memo, Suc fresh) = (d', memo', fresh')"
        by (cases "deepcopy_items d (memo, Suc fresh)")
      from "2.IH" [OF None] sub' con ok r
      have v: "map (\<lambda>(k, v). (k, value_of v)) d' = map (\<lambda>(k, v). (k, value_of v)) d"
        and ok': "memo_ok objs memo'" by simp_all
      from v have "value_of (ODict fresh d') = value_of (ODict a d)" by simp
      moreover from this have "memo_ok objs ((a, ODict fresh d') # memo')"
        by (intro memo_ok_Cons [OF ok' x]) simp_all
      ultimately show ?thesis using None r by simp
    next
      case (Some y)
      from ok have "memo_ok objs memo" by simp
      from memo_ok_hit [OF this Some con x] have "value_of y = value_of (ODict a d)" by simp
      with Some ok show ?thesis by simp
    qed
  qed
next
  case (5 x xs st)
  obtain y st' where y: "deepcopy_obj x st = (y, st')" by (cases "deepcopy_obj x st")
  obtain ys st'' where ys: "deepcopy_list xs st' = (ys, st'')" by (cases "deepcopy_list xs st'")
  show ?case
  proof (intro impI)
    assume sub: "(\<Union>x\<in>set (x # xs). parts x) \<subseteq> objs" and con: "consistent objs"
      and ok: "memo_ok objs (fst st)"
    from sub have s1: "parts x \<subseteq> objs" and s2: "(\<Union>x\<in>set xs. parts x) \<subseteq> objs" by auto
    from "5.IH"(1) s1 con ok y have 1: "value_of y = value_of x" "memo_ok objs (fst st')"
      by simp_all
    from "5.IH"(2) [OF y [symmetric]] s2 con 1(2) ys
    have "map value_of ys = map value_of xs" "memo_ok objs (fst st'')" by simp_all
    with 1 y ys show "map value_of (fst (deepcopy_list (x # xs) st)) = map value_of (x # xs) \<and>
      memo_ok objs (fst (snd (deepcopy_list (x # xs) st)))"
      by simp
  qed
next
  case (7 k x d st)
  obtain y st' where y: "deepcopy_obj x st = (y, st')" by (cases "deepcopy_obj x st")
  obtain d' st'' where d': "deepcopy_items d st' = (d', st'')" by (cases "deepcopy_items d st'")
  show ?case
  proof (intro impI)
    assume sub: "(\<Union>p\<in>set ((k, x) # d). parts (snd p)) \<subseteq> objs" and con: "consistent objs"
      and ok: "memo_ok objs (fst st)"
    from sub have s1: "parts x \<subseteq> objs" and s2: "(\<Union>p\<in>set d. parts (snd p)) \<subseteq> objs" by auto
    from "7.IH"(1) s1 con ok y have 1: "value_of y = value_of x" "memo_ok objs (fst st')"
      by simp_all
    from "7.IH"(2) [OF y [symmetric]] s2 con 1(2) d'
    have "map (\<lambda>(k, v). (k, value_of v)) d' = map (\<lambda>(k, v). (k, value_of v)) d"
      "memo_ok objs (fst st'')" by simp_all
    with 1 y d' show "map (\<lambda>(k, v). (k, value_of v)) (fst (deepcopy_items ((k, x) # d) st)) =
        map (\<lambda>(k, v). (k, value_of v)) ((k, x) # d) \<and>
      memo_ok objs (fst (snd (deepcopy_items ((k, x) # d) st)))"
      by simp
  qed
qed simp_all

lemma deepcopy_top:
  assumes "consistent (parts x)"
  shows "value_of (fst (deepcopy_obj x ([], fresh))) = value_of x"
    and "\<forall>i\<in>idents (fst (deepcopy_obj x ([], fresh))). fresh \<le> i"
    and "fresh \<le> snd (snd (deepcopy_obj x ([], fresh)))"
proof -
  have "memo_ok (parts x) []" by (simp add: memo_ok_def)
  with deepcopy_value(1) [of x "parts x" "([], fresh)"] assms
  show "value_of (fst (deepcopy_obj x ([], fresh))) = value_of x" by simp
  have "memo_fresh fresh []" by (simp add: memo_fresh_def)
  with deepcopy_fresh(1) [of fresh "([], fresh)" x]
  show "\<forall>i\<in>idents (fst (deepcopy_obj x ([], fresh))). fresh \<le> i"
    and "fresh \<le> snd (snd (deepcopy_obj x ([], fresh)))" by simp_all
qed

lemma map_of_same_values:
  assumes "map (\<lambda>(k, v). (k, value_of v)) d' = map (\<lambda>(k, v). (k, value_of v)) d"
    and "map_of d k = Some v"
  shows "\<exists>v'. map_of d' k = Some v' \<and> value_of v' = value_of v"
proof -
  have "map_option value_of (map_of d' k) = map_option value_of (map_of d k)"
    using arg_cong [OF assms(1), of "\<lambda>xs. map_of xs k"] by (simp add: map_of_map)
  with assms(2) show ?thesis by auto
qed

lemma idents_entry: "map_of d k = Some v \<Longrightarrow> idents v \<subseteq> idents (ODict a d)"
  by (auto dest!: map_of_SomeD)

lemma type_dict_obj_inherits:
  assumes "map_of dict_item ''type'' = Some (OStr s)"
    and "map_of dict_types s = Some (ODict a base)"
    and "consistent (parts (ODict a base))"
  shows "\<exists>copy. type_dict_obj dict_item dict_types fresh = Inr (merge_item copy dict_item) \<and>
           (\<forall>k v. map_of base k = Some v \<longrightarrow>
              (\<exists>v'. map_of copy k = Some v' \<and> value_of v' = value_of v \<and>
                    (\<forall>i\<in>idents v'. fresh \<le> i)))"
proof -
  obtain d' memo' fresh' where r: "deepcopy_items base ([], Suc fresh) = (d', memo', fresh')"
    by (cases "deepcopy_items base ([], Suc fresh)")
  then have c: "fst (deepcopy_obj (ODict a base) ([], fresh)) = ODict fresh d'" by simp
  with assms(1,2) have "type_dict_obj dict_item dict_types fresh = Inr (merge_item d' dict_item)"
    by (simp add: type_dict_obj_def type_entry_obj_def)
  moreover have "\<exists>v'. map_of d' k = Some v' \<and> value_of v' = value_of v \<and>
      (\<forall>i\<in>idents v'. fresh \<le> i)" if k: "map_of base k = Some v" for k v
  proof -
    from deepcopy_top(1) [OF assms(3), of fresh] c
    have "map (\<lambda>(k, v). (k, value_of v)) d' = map (\<lambda>(k, v). (k, value_of v)) base" by simp
    from map_of_same_values [OF this k] obtain v' where
      v': "map_of d' k = Some v'" "value_of v' = value_of v" by blast
    from deepcopy_top(2) [OF assms(3), of fresh] c
    have "\<forall>i\<in>idents (ODict fresh d'). fresh \<le> i" by simp
    with idents_entry [OF v'(1), of fresh] have "\<forall>i\<in>idents v'. fresh \<le> i" by blast
    with v' show ?thesis by blast
  qed
  ultimately show ?thesis by blast
qed

lemma copy_loop_obj_copies:
  assumes "\<forall>p\<in>set dict_item. consistent (parts (snd p))"
  shows "n \<le> fresh \<Longrightarrow>
     (\<forall>name v'. map_of result name = Some v' \<longrightarrow>
        (\<exists>v. map_of dict_item name = Some v \<and> value_of v' = value_of v \<and>
             (\<forall>i\<in>idents v'. n \<le> i))) \<Longrightarrow>
     (\<forall>name v'. map_of (copy_loop_obj dict_item names result fresh) name = Some v' \<longrightarrow>
        (\<exists>v. map_of dict_item name = Some v \<and> value_of v' = value_of v \<and>
             (\<forall>i\<in>idents v'. n \<le> i)))"
proof (induction names arbitrary: result fresh)
  case Nil
  then show ?case by simp
next
  case (Cons name names)
  show ?case
  proof (cases "map_of dict_item name")
    case None
    with Cons.IH [OF Cons.prems] show ?thesis by simp
  next
    case (Some v)
    obtain v' memo fresh' where r: "deepcopy_obj v ([], fresh) = (v', memo, fresh')"
      by (cases "deepcopy_obj v ([], fresh)")
    from Some have "(name, v) \<in> set dict_item" by (rule map_of_SomeD)
    with assms have con: "consistent (parts v)" by auto
    from deepcopy_top [OF con, of fresh] r have v': "value_of v' = value_of v"
      "\<forall>i\<in>idents v'. fresh \<le> i" "fresh \<le> fresh'" by simp_all
    with Cons.prems(1) have a: "n \<le> fresh'" and b: "\<forall>i\<in>idents v'. n \<le> i" by auto
    from b Some v'(1) Cons.prems(2)
    have c: "\<forall>k w'. map_of (setitem result name v') k = Some w' \<longrightarrow>
        (\<exists>w. map_of dict_item k = Some w \<and> value_of w' = value_of w \<and>
             (\<forall>i\<in>idents w'. n \<le> i))"
      by (auto simp: map_of_setitem)
    have "\<forall>k w'. map_of (copy_loop_obj dict_item names (setitem result name v') fresh') k
         = Some w' \<longrightarrow>
        (\<exists>w. map_of dict_item k = Some w \<and> value_of w' = value_of w \<and>
             (\<forall>i\<in>idents w'. n \<le> i))"
      by (rule Cons.IH [OF a c])
    with Some r show ?thesis by simp
  qed
qed

lemma copy_loop_obj_dom:
  "dom (map_of (copy_loop_obj dict_item names result fresh)) =
     dom (map_of result) \<union> (set names \<inter> dom (map_of dict_item))"
proof (induction names arbitrary: result fresh)
  case Nil
  then show ?case by simp
next
  case (Cons name names)
  show ?case
  proof (cases "map_of dict_item name")
    case None
    with Cons.IH [of result fresh] show ?thesis by auto
  next
    case (Some v)
    obtain v' memo fresh' where r: "deepcopy_obj v ([], fresh) = (v', memo, fresh')"
      by (cases "deepcopy_obj v ([], fresh)")
    have "dom (map_of (setitem result name v')) = insert name (dom (map_of result))"
      by (simp add: map_of_setitem)
    with Cons.IH [of "setitem result name v'" fresh']
    have "dom (map_of (copy_loop_obj dict_item names (setitem result name v') fresh')) =
        insert name (dom (map_of result)) \<union> (set names \<inter> dom (map_of dict_item))"
      by simp
    moreover from Some have "name \<in> dom (map_of dict_item)" by auto
    ultimately show ?thesis using Some r by auto
  qed
qed

lemma copy_fields_obj_copies:
  assumes "\<forall>p\<in>set dict_item. consistent (parts (snd p))"
    and "name \<in> set pick_fields" and "map_of dict_item name = Some v"
  shows "\<exists>v'. map_of (copy_fields_obj dict_item pick_fields fresh) name = Some v' \<and>
           value_of v' = value_of v \<and> (\<forall>i\<in>idents v'. fresh \<le> i)"
proof -
  from assms(2,3) have "name \<in> dom (map_of (copy_fields_obj dict_item pick_fields fresh))"
    by (auto simp: copy_fields_obj_def copy_loop_obj_dom)
  then obtain v' where v': "map_of (copy_fields_obj dict_item pick_fields fresh) name = Some v'"
    by auto
  have "\<forall>name v'. map_of (copy_loop_obj dict_item pick_fields [] fresh) name = Some v' \<longrightarrow>
        (\<exists>v. map_of dict_item name = Some v \<and> value_of v' = value_of v \<and>
             (\<forall>i\<in>idents v'. fresh \<le> i))"
    by (rule copy_loop_obj_copies [OF assms(1)]) simp_all
  with v' obtain w where "map_of dict_item name = Some w" "value_of v' = value_of w"
    "\<forall>i\<in>idents v'. fresh \<le> i"
    unfolding copy_fields_obj_def by blast
  with assms(3) v' show ?thesis by simp
qed

text \<open>
  The functions on objects compute what the functions on values compute: forgetting the
  identities commutes with them.
\<close>

lemma map_of_items_value: "map_of (items_value d) k = map_option value_of (map_of d k)"
  by (simp add: items_value_def map_of_map)

lemma items_value_setitem: "items_value (setitem d k v) = setitem (items_value d) k (value_of v)"
  by (induction d) (auto simp: items_value_def setitem_def)

lemma items_value_dict_update:
  "items_value (dict_update base d) = dict_update (items_value base) (items_value d)"
proof (induction base d rule: dict_update.induct)
  case (1 base)
  then show ?case by (simp add: items_value_def)
next
  case (2 base k v other)
  then show ?case
    using items_value_setitem [of base k v] by (simp add: items_value_def)
qed

lemma items_value_delitem: "items_value (delitem d k) = delitem (items_value d) k"
  by (induction d) (auto simp: items_value_def delitem_def AList.delete_eq)

lemma items_value_Nil: "items_value [] = []"
  by (simp add: items_value_def)

lemma items_value_merge_item:
  "items_value (merge_item base d) = merge_item (items_value base) (items_value d)"
proof -
  have "map_of (dict_update (items_value base) (items_value d)) ''type'' =
      map_option value_of (map_of (dict_update base d) ''type'')"
    by (simp add: items_value_dict_update [symmetric] map_of_items_value)
  then show ?thesis
    by (cases "map_of (dict_update base d) ''type''")
       (simp_all add: merge_item_def Let_def items_value_delitem items_value_dict_update)
qed

lemma hashable_value_of: "hashable (value_of t) = hashable_obj t"
  by (cases t) simp_all

lemma type_entry_value:
  "type_entry (value_of t) (items_value dict_types) =
     map_sum id (map_option value_of) (type_entry_obj t dict_types)"
  by (cases t) (simp_all add: type_entry_def type_entry_obj_def map_of_items_value)

lemma type_dict_obj_refines:
  assumes "\<forall>p\<in>set dict_types. consistent (parts (snd p))"
  shows "map_sum id items_value (type_dict_obj dict_item dict_types fresh) =
     type_dict (items_value dict_item) (items_value dict_types)"
proof (cases "map_of dict_item ''type''")
  case None
  then show ?thesis
    by (simp add: type_dict_obj_def type_dict_def map_of_items_value items_value_merge_item
        items_value_Nil)
next
  case (Some t)
  note t = this
  show ?thesis
  proof (cases "type_entry_obj t dict_types")
    case (Inl e)
    with t type_entry_value [of t dict_types] show ?thesis
      by (simp add: type_dict_obj_def type_dict_def map_of_items_value)
  next
    case (Inr entry)
    show ?thesis
    proof (cases entry)
      case None
      with t Inr type_entry_value [of t dict_types] show ?thesis
        by (simp add: type_dict_obj_def type_dict_def map_of_items_value items_value_merge_item
            items_value_Nil)
    next
      case (Some x)
      with Inr obtain s where "map_of dict_types s = Some x"
        by (cases t) (auto simp: type_entry_obj_def split: if_splits)
      then have "(s, x) \<in> set dict_types" by (rule map_of_SomeD)
      with assms have "consistent (parts x)" by auto
      from deepcopy_top(1) [OF this, of fresh]
      have v: "value_of (fst (deepcopy_obj x ([], fresh))) = value_of x" .
      show ?thesis
      proof (cases "fst (deepcopy_obj x ([], fresh))")
        case (ODict a base)
        with v have "value_of x = JDict (items_value base)" by (simp add: items_value_def)
        with t Inr Some ODict type_entry_value [of t dict_types] show ?thesis
          by (simp add: type_dict_obj_def type_dict_def map_of_items_value
              items_value_merge_item deepcopy_def)
      qed (use t Inr Some type_entry_value [of t dict_types] in
          \<open>simp_all add: v [symmetric] type_dict_obj_def type_dict_def map_of_items_value
            deepcopy_def\<close>)
    qed
  qed
qed

lemma copy_loop_obj_refines:
  assumes "\<forall>p\<in>set dict_item. consistent (parts (snd p))"
  shows "items_value (copy_loop_obj dict_item names result fresh) =
     copy_loop (items_value dict_item) names (items_value result)"
proof (induction names arbitrary: result fresh)
  case Nil
  then show ?case by simp
next
  case (Cons name names)
  show ?case
  proof (cases "map_of dict_item name")
    case None
    with Cons.IH show ?thesis by (simp add: map_of_items_value)
  next
    case (Some v)
    obtain v' memo fresh' where r: "deepcopy_obj v ([], fresh) = (v', memo, fresh')"
      by (cases "deepcopy_obj v ([], fresh)")
    from Some have "(name, v) \<in> set dict_item" by (rule map_of_SomeD)
    with assms have "consistent (parts v)" by auto
    from deepcopy_top(1) [OF this, of fresh] r have "value_of v' = value_of v" by simp
    with Some r Cons.IH [of "setitem result name v'" fresh'] show ?thesis
      by (simp add: map_of_items_value items_value_setitem deepcopy_def)
  qed
qed

lemma copy_fields_obj_refines:
  assumes "\<forall>p\<in>set dict_item. consistent (parts (snd p))"
  shows "items_value (copy_fields_obj dict_item pick_fields fresh) =
     copy_fields (items_value dict_item) pick_fields"
  using copy_loop_obj_refines [OF assms, of pick_fields "[]" fresh]
  by (simp add: copy_fields_obj_def copy_fields_def items_value_Nil)
section \<open>Properties of the views\<close>

lemma and_then_Inr: "and_then (Inr x) f = f x"
  by (simp add: and_then_def)

lemma and_then_Inl: "and_then (Inl e) f = Inl e"
  by (simp add: and_then_def)


lemma getitem_Some: "map_of d k = Some v \<Longrightarrow> getitem d k = Inr v"
  by (simp add: getitem_def)

lemma getitem_None: "map_of d k = None \<Longrightarrow> getitem d k = Inl KeyError"
  by (simp add: getitem_def)




lemma exercise_view_entry:
  assumes "config_exercise_entry env (JStr course_key) (JStr exercise_key)
             (query_get (GET request) ''lang'') = Inr (Some course, Some exercise)"
  shows "exercise_view env request course_key exercise_key =
     and_then (translation_activate env
                 (exercise_language (query_get (GET request) ''lang'') course)) (\<lambda>_.
     and_then (getitem exercise ''view_type'') (\<lambda>view_type.
       case import_by_path env view_type of
         Inl ImproperlyConfigured \<Rightarrow> Inl ConfigError
       | Inl e \<Rightarrow> Inl e
       | Inr exview \<Rightarrow>
           exview (exercise_language (query_get (GET request) ''lang'') course) request course
             exercise (query_get (GET request) ''post_url'')))"
  using assms by (simp add: exercise_view_def and_then_def Let_def)


lemma example_exercise_entry:
  "config_exercise_entry (example_env course) (JStr ''c1'') (JStr ''e1'') lang =
     Inr (Some course, Some example_exercise)"
  by (simp add: example_env_def)

lemma map_of_set_field: "map_of (set_field vals k v) = (map_of vals)(k \<mapsto> [v])"
  by (simp add: set_field_def update_conv')

section \<open>Properties of the file operations\<close>

lemma write_text_other:
  "path' \<noteq> path \<Longrightarrow> nodes (fst (write_text fs path text)) path' = nodes fs path'"
  by (simp add: write_text_def split: option.splits)

lemma write_text_frame:
  "writable (fst (write_text fs path text)) = writable fs \<and>
   readable (fst (write_text fs path text)) = readable fs \<and>
   device_fault (fst (write_text fs path text)) = device_fault fs"
  by (simp add: write_text_def split: option.splits)

lemma write_text_fails_closed:
  "nodes fs path = Some Directory \<or> \<not> writable fs path \<Longrightarrow>
   write_text fs path text = (fs, Inl OSError)"
  by (auto simp: write_text_def)

lemma write_text_stores:
  "nodes fs path \<noteq> Some Directory \<Longrightarrow> writable fs path \<Longrightarrow>
   device_fault fs path text = None \<Longrightarrow>
   write_text fs path text = (fs\<lparr>nodes := (nodes fs)(path \<mapsto> File text)\<rparr>, Inr ())"
  by (simp add: write_text_def)

lemma write_text_fault:
  "nodes fs path \<noteq> Some Directory \<Longrightarrow> writable fs path \<Longrightarrow>
   device_fault fs path text = Some part \<Longrightarrow>
   write_text fs path text = (fs\<lparr>nodes := (nodes fs)(path \<mapsto> File part)\<rparr>, Inl OSError)"
  by (simp add: write_text_def)

lemma universal_newlines_plain:
  "CHR 0x0D \<notin> set s \<Longrightarrow> universal_newlines s = s"
  by (induction s rule: universal_newlines.induct) auto

lemma universal_newlines_empty: "(universal_newlines s = []) = (s = [])"
  by (induction s rule: universal_newlines.induct) auto

lemma universal_newlines_no_cr: "CHR 0x0D \<notin> set (universal_newlines s)"
  by (induction s rule: universal_newlines.induct) auto

lemma test_result_post_unfold:
  "http_method request = ''POST'' \<Longrightarrow>
   test_result env now fs request =
     (case write_text fs (path_join (SUBMISSION_PATH env) ''test-result'')
             (json_dumps env (set_field (POST request) ''time'' now)) of
        (fs', Inl e) \<Rightarrow> (fs', Inl e)
      | (fs', Inr _) \<Rightarrow> (fs', Inr (JsonResponse (JDict [(''success'', JBool True)]))))"
  by (simp add: test_result_def Let_def)

lemma test_result_get_unfold:
  "http_method request \<noteq> ''POST'' \<Longrightarrow>
   test_result env now fs request =
     (case nodes fs (path_join (SUBMISSION_PATH env) ''test-result'') of
        None \<Rightarrow> (fs, Inr (HttpResponse no_result))
      | Some n \<Rightarrow>
          (case read_text env fs (path_join (SUBMISSION_PATH env) ''test-result'') of
             Inl e \<Rightarrow> (fs, Inl e)
           | Inr content \<Rightarrow>
               (fs, Inr (HttpResponse (if content \<noteq> [] then content else no_result)))))"
  by (simp add: test_result_def Let_def and_then_def split: option.splits sum.splits)

lemma example_path:
  "path_join (SUBMISSION_PATH (example_env course)) ''test-result'' =
     ''/srv/submissions/test-result''"
  by (simp add: path_join_def example_env_def)





text \<open>
  Claim C1, amended. Let \<open>dict_item\<close> be a dictionary (each key once). If its
  \<^verbatim>\<open>"type"\<close> is a string that names a dictionary \<open>base\<close> of \<open>dict_types\<close>,
  \<open>type_dict\<close> returns a dictionary that has no \<^verbatim>\<open>"type"\<close> key and maps every
  other key to the value of \<open>dict_item\<close> where \<open>dict_item\<close> has the key, and to the
  value of \<open>base\<close> otherwise. If \<open>dict_item\<close> has no \<^verbatim>\<open>"type"\<close>, or a
  hashable one that is no key of \<open>dict_types\<close>, the result has exactly the entries of
  \<open>dict_item\<close> less \<^verbatim>\<open>"type"\<close>. If the \<^verbatim>\<open>"type"\<close> is a list or a
  dictionary, the call raises \<open>TypeError\<close>.

  The counterexample shows the two points where the claim as stated fails: a
  \<^verbatim>\<open>"type"\<close> key of the named type dictionary is not in the result although
  \<open>dict_item\<close> has that key, and an unhashable \<^verbatim>\<open>"type"\<close> gives no result.
\<close>

theorem type_dict_inherits:
  assumes "distinct (map fst dict_item)"
  shows
    "(\<forall>s base. map_of dict_item ''type'' = Some (JStr s) \<and> map_of dict_types s = Some (JDict base) \<longrightarrow>
        (\<exists>r. type_dict dict_item dict_types = Inr r \<and>
           (\<forall>k. map_of r k =
              (if k = ''type'' then None
               else case map_of dict_item k of Some v \<Rightarrow> Some v | None \<Rightarrow> map_of base k)))) \<and>
     (map_of dict_item ''type'' = None \<or>
      (\<exists>t. map_of dict_item ''type'' = Some t \<and> hashable t \<and>
           (\<forall>s. t = JStr s \<longrightarrow> map_of dict_types s = None)) \<longrightarrow>
        (\<exists>r. type_dict dict_item dict_types = Inr r \<and>
           (\<forall>k. map_of r k = (if k = ''type'' then None else map_of dict_item k)))) \<and>
     (\<forall>t. map_of dict_item ''type'' = Some t \<and> \<not> hashable t \<longrightarrow>
        type_dict dict_item dict_types = Inl TypeError)"
proof (intro conjI allI impI)
  fix s base
  assume "map_of dict_item ''type'' = Some (JStr s) \<and> map_of dict_types s = Some (JDict base)"
  then have "type_dict dict_item dict_types = Inr (merge_item base dict_item)"
    by (simp add: type_dict_def type_entry_def deepcopy_def)
  then show "\<exists>r. type_dict dict_item dict_types = Inr r \<and>
           (\<forall>k. map_of r k =
              (if k = ''type'' then None
               else case map_of dict_item k of Some v \<Rightarrow> Some v | None \<Rightarrow> map_of base k))"
    using assms by (simp add: merge_item_lookup)
next
  assume a: "map_of dict_item ''type'' = None \<or>
      (\<exists>t. map_of dict_item ''type'' = Some t \<and> hashable t \<and>
           (\<forall>s. t = JStr s \<longrightarrow> map_of dict_types s = None))"
  have "type_dict dict_item dict_types = Inr (merge_item [] dict_item)"
  proof (cases "map_of dict_item ''type''")
    case None
    then show ?thesis by (simp add: type_dict_def)
  next
    case (Some t)
    with a have "hashable t" "\<forall>s. t = JStr s \<longrightarrow> map_of dict_types s = None" by auto
    then have "type_entry t dict_types = Inr None"
      by (cases t) (simp_all add: type_entry_def)
    with Some show ?thesis by (simp add: type_dict_def)
  qed
  then show "\<exists>r. type_dict dict_item dict_types = Inr r \<and>
           (\<forall>k. map_of r k = (if k = ''type'' then None else map_of dict_item k))"
    using assms by (auto simp: merge_item_lookup split: option.splits)
next
  fix t
  assume "map_of dict_item ''type'' = Some t \<and> \<not> hashable t"
  then show "type_dict dict_item dict_types = Inl TypeError"
    by (simp add: type_dict_def type_entry_def)
qed

theorem type_dict_inherits_witness:
  "\<exists>r. type_dict [(''type'', JStr ''t''), (''a'', JInt 1)]
            [(''t'', JDict [(''a'', JInt 2), (''b'', JInt 3)])] = Inr r \<and>
       map_of r ''a'' = Some (JInt 1) \<and> map_of r ''b'' = Some (JInt 3) \<and>
       map_of r ''type'' = None"
proof -
  let ?item = "[(''type'', JStr ''t''), (''a'', JInt 1)]"
  let ?base = "[(''a'', JInt 2), (''b'', JInt 3)]"
  let ?types = "[(''t'', JDict ?base)]"
  have d: "distinct (map fst ?item)" by simp
  have pre: "map_of ?item ''type'' = Some (JStr ''t'') \<and> map_of ?types ''t'' = Some (JDict ?base)"
    by simp
  note inherit = conjunct1 [OF type_dict_inherits [OF d, of ?types]]
  from mp [OF spec [OF spec [OF inherit]] pre] obtain r where
    r: "type_dict ?item ?types = Inr r"
    and look: "\<forall>k. map_of r k =
         (if k = ''type'' then None
          else case map_of ?item k of Some v \<Rightarrow> Some v | None \<Rightarrow> map_of ?base k)"
    by (elim exE conjE)
  have "map_of r ''a'' = Some (JInt 1)" using spec [OF look, of "''a''"] by simp
  moreover have "map_of r ''b'' = Some (JInt 3)" using spec [OF look, of "''b''"] by simp
  moreover have "map_of r ''type'' = None" using spec [OF look, of "''type''"] by simp
  ultimately show ?thesis using r by (intro exI [of _ r]) simp
qed

theorem type_dict_inherits_counterexample:
  "type_dict [(''type'', JStr ''t'')]
     [(''t'', JDict [(''type'', JStr ''x''), (''a'', JInt 1)])] = Inr [(''a'', JInt 1)] \<and>
   type_dict [(''type'', JList [])] [] = Inl TypeError"
  by (simp add: type_dict_def type_entry_def deepcopy_def merge_item_def setitem_def delitem_def
      AList.delete_eq)

text \<open>
  Claim C2, amended. The merge is shallow for \<open>dict_item\<close> and deep for the type
  dictionary. Every value the result of \<open>type_dict\<close> takes from \<open>dict_item\<close> is the
  very object stored in \<open>dict_item\<close>. Every value it inherits from the named type
  dictionary is a deep copy: equal in value to the object stored there, and sharing no list
  or dictionary with the type dictionary. Likewise every field \<open>copy_fields\<close> picks is a
  deep copy of the object stored in the course entry.

  The counterexample shows an inherited list and a picked list whose identity is not that of
  the stored object, as the claim as stated would have it.
\<close>

theorem merged_values_are_copies:
  assumes "distinct (map fst dict_item)"
    and "map_of dict_item ''type'' = Some (OStr s)"
    and "map_of dict_types s = Some (ODict a base)"
    and "consistent (parts (ODict a base))"
    and "\<forall>i\<in>idents (ODict a base). i < fresh"
    and "\<forall>p\<in>set course. consistent (parts (snd p))"
    and "\<forall>p\<in>set course. \<forall>i\<in>idents (snd p). i < fresh"
  shows
    "\<exists>r. type_dict_obj dict_item dict_types fresh = Inr r \<and>
       (\<forall>k v. k \<noteq> ''type'' \<and> map_of dict_item k = Some v \<longrightarrow> map_of r k = Some v) \<and>
       (\<forall>k v. k \<noteq> ''type'' \<and> map_of dict_item k = None \<and> map_of base k = Some v \<longrightarrow>
          (\<exists>v'. map_of r k = Some v' \<and> value_of v' = value_of v \<and>
                idents v' \<inter> idents (ODict a base) = {})) \<and>
       (\<forall>name v. name \<in> set pick_fields \<and> map_of course name = Some v \<longrightarrow>
          (\<exists>v'. map_of (copy_fields_obj course pick_fields fresh) name = Some v' \<and>
                value_of v' = value_of v \<and>
                idents v' \<inter> (\<Union>p\<in>set course. idents (snd p)) = {}))"
proof -
  from type_dict_obj_inherits [OF assms(2-4), of fresh] obtain copy where
    r: "type_dict_obj dict_item dict_types fresh = Inr (merge_item copy dict_item)"
    and c: "\<forall>k v. map_of base k = Some v \<longrightarrow>
              (\<exists>v'. map_of copy k = Some v' \<and> value_of v' = value_of v \<and>
                    (\<forall>i\<in>idents v'. fresh \<le> i))"
    by blast
  let ?r = "merge_item copy dict_item"
  have 1: "\<forall>k v. k \<noteq> ''type'' \<and> map_of dict_item k = Some v \<longrightarrow> map_of ?r k = Some v"
  proof (intro allI impI)
    fix k v
    assume "k \<noteq> ''type'' \<and> map_of dict_item k = Some v"
    then show "map_of ?r k = Some v" by (simp add: merge_item_lookup [OF assms(1)])
  qed
  have 2: "\<forall>k v. k \<noteq> ''type'' \<and> map_of dict_item k = None \<and> map_of base k = Some v \<longrightarrow>
          (\<exists>v'. map_of ?r k = Some v' \<and> value_of v' = value_of v \<and>
                idents v' \<inter> idents (ODict a base) = {})"
  proof (intro allI impI)
    fix k v
    assume k: "k \<noteq> ''type'' \<and> map_of dict_item k = None \<and> map_of base k = Some v"
    with c obtain v' where v': "map_of copy k = Some v'" "value_of v' = value_of v"
      "\<forall>i\<in>idents v'. fresh \<le> i" by blast
    from v'(3) assms(5) have "idents v' \<inter> idents (ODict a base) = {}" by fastforce
    moreover from k v'(1) assms(1) have "map_of ?r k = Some v'"
      by (simp add: merge_item_lookup)
    ultimately show "\<exists>v'. map_of ?r k = Some v' \<and> value_of v' = value_of v \<and>
                idents v' \<inter> idents (ODict a base) = {}"
      using v'(2) by blast
  qed
  have 3: "\<forall>name v. name \<in> set pick_fields \<and> map_of course name = Some v \<longrightarrow>
          (\<exists>v'. map_of (copy_fields_obj course pick_fields fresh) name = Some v' \<and>
                value_of v' = value_of v \<and>
                idents v' \<inter> (\<Union>p\<in>set course. idents (snd p)) = {})"
  proof (intro allI impI)
    fix name v
    assume n: "name \<in> set pick_fields \<and> map_of course name = Some v"
    then have "name \<in> set pick_fields" "map_of course name = Some v" by simp_all
    from copy_fields_obj_copies [OF assms(6) this, of fresh] obtain v' where
      v': "map_of (copy_fields_obj course pick_fields fresh) name = Some v'"
      "value_of v' = value_of v" "\<forall>i\<in>idents v'. fresh \<le> i" by blast
    from v'(3) assms(7) have "idents v' \<inter> (\<Union>p\<in>set course. idents (snd p)) = {}"
      by fastforce
    with v'(1,2) show "\<exists>v'. map_of (copy_fields_obj course pick_fields fresh) name = Some v' \<and>
                value_of v' = value_of v \<and>
                idents v' \<inter> (\<Union>p\<in>set course. idents (snd p)) = {}"
      by blast
  qed
  from r 1 2 3 show ?thesis by blast
qed

theorem merged_values_are_copies_counterexample:
  "type_dict_obj example_item example_types 4 =
     Inr [(''points'', OInt 10), (''grades'', OList 5 [OInt 1, OInt 2]),
          (''tags'', OList 1 [OStr ''x''])] \<and>
   OList 5 [OInt 1, OInt 2] \<noteq> OList 3 [OInt 1, OInt 2] \<and>
   copy_fields_obj example_entry [''name'', ''assistants''] 4 =
     [(''name'', OStr ''Course''), (''assistants'', OList 4 [OStr ''ann''])] \<and>
   OList 4 [OStr ''ann''] \<noteq> OList 0 [OStr ''ann'']"
  by (simp add: type_dict_obj_def type_entry_obj_def example_item_def example_types_def
      example_entry_def copy_fields_obj_def merge_item_def setitem_def delitem_def
      AList.delete_eq)

theorem merged_values_are_copies_witness:
  "\<exists>r grades assistants.
     type_dict_obj example_item example_types 4 = Inr r \<and>
     map_of r ''tags'' = Some (OList 1 [OStr ''x'']) \<and>
     map_of r ''grades'' = Some grades \<and> value_of grades = JList [JInt 1, JInt 2] \<and>
     idents grades \<inter> {2, 3} = {} \<and>
     map_of (copy_fields_obj example_entry [''name'', ''assistants''] 4) ''assistants'' =
       Some assistants \<and>
     value_of assistants = JList [JStr ''ann''] \<and> idents assistants \<inter> {0} = {}"
proof -
  let ?base = "[(''points'', OInt 10), (''grades'', OList 3 [OInt 1, OInt 2])]"
  have 1: "distinct (map fst example_item)" by (simp add: example_item_def)
  have 2: "map_of example_item ''type'' = Some (OStr ''quiz'')" by (simp add: example_item_def)
  have 3: "map_of example_types ''quiz'' = Some (ODict 2 ?base)" by (simp add: example_types_def)
  have 4: "consistent (parts (ODict 2 ?base))" by (simp add: consistent_def)
  have 5: "\<forall>i\<in>idents (ODict 2 ?base). i < 4" by simp
  have 6: "\<forall>p\<in>set example_entry. consistent (parts (snd p))"
    by (simp add: example_entry_def consistent_def)
  have 7: "\<forall>p\<in>set example_entry. \<forall>i\<in>idents (snd p). i < 4" by (simp add: example_entry_def)
  from merged_values_are_copies [OF 1 2 3 4 5 6 7, of "[''name'', ''assistants'']"]
  obtain r where r: "type_dict_obj example_item example_types 4 = Inr r"
    and kept: "\<forall>k v. k \<noteq> ''type'' \<and> map_of example_item k = Some v \<longrightarrow> map_of r k = Some v"
    and copied: "\<forall>k v. k \<noteq> ''type'' \<and> map_of example_item k = None \<and>
        map_of ?base k = Some v \<longrightarrow>
          (\<exists>v'. map_of r k = Some v' \<and> value_of v' = value_of v \<and>
                idents v' \<inter> idents (ODict 2 ?base) = {})"
    and fields: "\<forall>name v. name \<in> set [''name'', ''assistants''] \<and>
        map_of example_entry name = Some v \<longrightarrow>
          (\<exists>v'. map_of (copy_fields_obj example_entry [''name'', ''assistants''] 4) name =
                  Some v' \<and>
                value_of v' = value_of v \<and>
                idents v' \<inter> (\<Union>p\<in>set example_entry. idents (snd p)) = {})"
    by (elim exE conjE)
  have pt: "''tags'' \<noteq> ''type'' \<and> map_of example_item ''tags'' = Some (OList 1 [OStr ''x''])"
    by (simp add: example_item_def)
  have t: "map_of r ''tags'' = Some (OList 1 [OStr ''x''])"
    by (rule kept [rule_format, OF pt])
  have pg: "''grades'' \<noteq> ''type'' \<and> map_of example_item ''grades'' = None \<and>
      map_of ?base ''grades'' = Some (OList 3 [OInt 1, OInt 2])"
    by (simp add: example_item_def)
  from copied [rule_format, OF pg] obtain grades where g: "map_of r ''grades'' = Some grades"
    "value_of grades = value_of (OList 3 [OInt 1, OInt 2])"
    "idents grades \<inter> idents (ODict 2 ?base) = {}" by (elim exE conjE)
  have pa: "''assistants'' \<in> set [''name'', ''assistants''] \<and>
      map_of example_entry ''assistants'' = Some (OList 0 [OStr ''ann''])"
    by (simp add: example_entry_def)
  from fields [rule_format, OF pa] obtain assistants where
    a: "map_of (copy_fields_obj example_entry [''name'', ''assistants''] 4) ''assistants'' =
          Some assistants"
    "value_of assistants = value_of (OList 0 [OStr ''ann''])"
    "idents assistants \<inter> (\<Union>p\<in>set example_entry. idents (snd p)) = {}"
    by (elim exE conjE)
  from g(2,3) have "value_of grades = JList [JInt 1, JInt 2]" "idents grades \<inter> {2, 3} = {}"
    by simp_all
  moreover from a(2,3) have "value_of assistants = JList [JStr ''ann'']"
    "idents assistants \<inter> {0} = {}"
    by (simp_all add: example_entry_def)
  ultimately show ?thesis using r t g(1) a(1)
    by (intro exI [of _ r] exI [of _ grades] exI [of _ assistants]) simp
qed






text \<open>
  Claim C5, amended. A POST request to \<open>test_result\<close>, whatever its form, writes
  under the one path \<^verbatim>\<open>SUBMISSION_PATH/test-result\<close> and under no other. When that
  path can be opened for writing and the device takes the text, the file holds afterwards
  the encoding of the posted fields with the field \<^verbatim>\<open>"time"\<close> set to the time of the
  request, whatever was stored there before, and the response is the JSON body
  \<^verbatim>\<open>{"success": true}\<close>. When the path is a directory or cannot be opened for
  writing, the view raises \<open>OSError\<close> and leaves the file system as it was; when the
  device fails during the write, the view raises \<open>OSError\<close> and the file holds the part
  that was written.

  The counterexample is a POST request to a write-protected submission directory: it ends in
  \<open>OSError\<close>, with no response and no file.
\<close>

theorem test_result_post:
  assumes "http_method request = ''POST''"
  shows
    "(let file_path = path_join (SUBMISSION_PATH env) ''test-result'';
          text = json_dumps env (set_field (POST request) ''time'' now);
          after = test_result env now fs request
      in (nodes fs file_path \<noteq> Some Directory \<and> writable fs file_path \<and>
          device_fault fs file_path text = None \<longrightarrow>
            snd after = Inr (JsonResponse (JDict [(''success'', JBool True)])) \<and>
            nodes (fst after) file_path = Some (File text)) \<and>
         (nodes fs file_path = Some Directory \<or> \<not> writable fs file_path \<longrightarrow>
            after = (fs, Inl OSError)) \<and>
         (\<forall>part. nodes fs file_path \<noteq> Some Directory \<and> writable fs file_path \<and>
            device_fault fs file_path text = Some part \<longrightarrow>
            snd after = Inl OSError \<and> nodes (fst after) file_path = Some (File part)) \<and>
         (\<forall>path. path \<noteq> file_path \<longrightarrow> nodes (fst after) path = nodes fs path) \<and>
         writable (fst after) = writable fs \<and> readable (fst after) = readable fs) \<and>
     map_of (set_field (POST request) ''time'' now) = (map_of (POST request))(''time'' \<mapsto> [now])"
proof -
  let ?p = "path_join (SUBMISSION_PATH env) ''test-result''"
  let ?t = "json_dumps env (set_field (POST request) ''time'' now)"
  let ?w = "write_text fs ?p ?t"
  note u = test_result_post_unfold [OF assms, of env now fs]
  have f: "fst (test_result env now fs request) = fst ?w"
    unfolding u by (cases ?w) (auto split: sum.splits)
  have one: "nodes fs ?p \<noteq> Some Directory \<and> writable fs ?p \<and> device_fault fs ?p ?t = None \<longrightarrow>
      snd (test_result env now fs request) = Inr (JsonResponse (JDict [(''success'', JBool True)])) \<and>
      nodes (fst (test_result env now fs request)) ?p = Some (File ?t)"
    unfolding u by (simp add: write_text_stores)
  have two: "nodes fs ?p = Some Directory \<or> \<not> writable fs ?p \<longrightarrow>
      test_result env now fs request = (fs, Inl OSError)"
    unfolding u by (simp add: write_text_fails_closed)
  have three: "\<forall>part. nodes fs ?p \<noteq> Some Directory \<and> writable fs ?p \<and>
      device_fault fs ?p ?t = Some part \<longrightarrow>
      snd (test_result env now fs request) = Inl OSError \<and>
      nodes (fst (test_result env now fs request)) ?p = Some (File part)"
    unfolding u by (simp add: write_text_fault)
  have four: "\<forall>path. path \<noteq> ?p \<longrightarrow>
      nodes (fst (test_result env now fs request)) path = nodes fs path"
    unfolding f by (simp add: write_text_other)
  have five: "writable (fst (test_result env now fs request)) = writable fs \<and>
      readable (fst (test_result env now fs request)) = readable fs"
    unfolding f by (simp add: write_text_frame)
  from one two three four five show ?thesis
    by (simp add: Let_def map_of_set_field)
qed

theorem test_result_post_witness:
  "nodes (fst (test_result (example_env example_course) ''noon''
          (fst (test_result (example_env example_course) ''morning'' (example_fs [])
                  (post_request [(''points'', [''1''])])))
          (post_request [(''points'', [''5''])])))
     ''/srv/submissions/test-result'' = Some (File ''points5timenoon'') \<and>
   nodes (fst (test_result (example_env example_course) ''noon'' (example_fs [])
          (post_request [(''points'', [''5''])]))) ''/srv/submissions/other'' = None \<and>
   snd (test_result (example_env example_course) ''noon'' (example_fs [])
          (post_request [(''points'', [''5''])])) =
     Inr (JsonResponse (JDict [(''success'', JBool True)]))"
proof -
  let ?env = "example_env example_course"
  let ?r = "post_request [(''points'', [''5''])]"
  let ?before = "fst (test_result ?env ''morning'' (example_fs []) (post_request [(''points'', [''1''])]))"
  have m: "http_method ?r = ''POST''" by (simp add: post_request_def)
  have m1: "http_method (post_request [(''points'', [''1''])]) = ''POST''"
    by (simp add: post_request_def)
  have p: "path_join (SUBMISSION_PATH ?env) ''test-result'' = ''/srv/submissions/test-result''"
    by (rule example_path)
  have c: "json_dumps ?env (set_field (POST ?r) ''time'' ''noon'') = ''points5timenoon''"
    by (simp add: example_env_def set_field_def post_request_def)
  have b: "nodes ?before ''/srv/submissions/test-result'' \<noteq> Some Directory \<and>
      writable ?before ''/srv/submissions/test-result'' \<and>
      device_fault ?before ''/srv/submissions/test-result'' ''points5timenoon'' = None"
    unfolding test_result_post_unfold [OF m1] p
    by (simp add: write_text_def example_fs_def)
  have e: "nodes (example_fs []) ''/srv/submissions/test-result'' \<noteq> Some Directory \<and>
      writable (example_fs []) ''/srv/submissions/test-result'' \<and>
      device_fault (example_fs []) ''/srv/submissions/test-result'' ''points5timenoon'' = None"
    by (simp add: example_fs_def)
  note t1 = conjunct1 [OF test_result_post [OF m, of ?env "''noon''" ?before,
        unfolded Let_def p c]]
  note t2 = conjunct1 [OF test_result_post [OF m, of ?env "''noon''" "example_fs []",
        unfolded Let_def p c]]
  from mp [OF conjunct1 [OF t1] b]
  have one: "nodes (fst (test_result ?env ''noon'' ?before ?r)) ''/srv/submissions/test-result'' =
      Some (File ''points5timenoon'')"
    by (rule conjunct2)
  from mp [OF conjunct1 [OF t2] e]
  have three: "snd (test_result ?env ''noon'' (example_fs []) ?r) =
      Inr (JsonResponse (JDict [(''success'', JBool True)]))"
    by (rule conjunct1)
  have ne: "''/srv/submissions/other'' \<noteq> ''/srv/submissions/test-result''" by simp
  from mp [OF spec [OF conjunct1 [OF conjunct2 [OF conjunct2 [OF conjunct2 [OF t2]]]]] ne]
  have two: "nodes (fst (test_result ?env ''noon'' (example_fs []) ?r)) ''/srv/submissions/other'' = None"
    by (simp add: example_fs_def)
  from one two three show ?thesis by simp
qed

theorem test_result_post_counterexample:
  "http_method (post_request [(''points'', [''5''])]) = ''POST'' \<and>
   snd (test_result (example_env example_course) ''noon'' (readonly_fs [])
          (post_request [(''points'', [''5''])])) = Inl OSError \<and>
   nodes (fst (test_result (example_env example_course) ''noon'' (readonly_fs [])
          (post_request [(''points'', [''5''])]))) ''/srv/submissions/test-result'' = None"
  by (simp add: test_result_def Let_def write_text_def readonly_fs_def example_fs_def
      post_request_def example_path)

text \<open>
  Claim C6, amended. When the parser returns a course and an exercise entry, the exercise
  entry has a \<^verbatim>\<open>"view_type"\<close> and the language of the exercise is activated without
  an exception, the exercise view imports the handler of that name and returns what the
  handler returns for the request, the course entry, the exercise entry and the
  \<^verbatim>\<open>post_url\<close> parameter (the last value given for it); when the import raises
  \<open>ImproperlyConfigured\<close>, the view raises \<open>ConfigError\<close>, and any other exception
  of the import ends the view. When the activation raises, the view ends with that exception
  and imports nothing.

  The counterexample has two entries that exist: an exercise entry without a
  \<^verbatim>\<open>"view_type"\<close>, for which the view neither calls a handler nor raises
  \<open>ConfigError\<close> (the read of the field raises \<open>KeyError\<close>), and a course whose
  language is a list, for which the handler can be imported and is not called (the
  activation raises \<open>TypeError\<close>).
\<close>

theorem exercise_view_handler:
  assumes "config_exercise_entry env (JStr course_key) (JStr exercise_key)
             (query_get (GET request) ''lang'') = Inr (Some course, Some exercise)"
    and "map_of exercise ''view_type'' = Some view_type"
  shows
    "(translation_activate env (exercise_language (query_get (GET request) ''lang'') course) =
        Inr () \<longrightarrow>
        (\<forall>exview. import_by_path env view_type = Inr exview \<longrightarrow>
           exercise_view env request course_key exercise_key =
             exview (exercise_language (query_get (GET request) ''lang'') course) request course
               exercise (query_get (GET request) ''post_url'')) \<and>
        (import_by_path env view_type = Inl ImproperlyConfigured \<longrightarrow>
           exercise_view env request course_key exercise_key = Inl ConfigError) \<and>
        (\<forall>e. import_by_path env view_type = Inl e \<and> e \<noteq> ImproperlyConfigured \<longrightarrow>
           exercise_view env request course_key exercise_key = Inl e)) \<and>
     (\<forall>e. translation_activate env (exercise_language (query_get (GET request) ''lang'') course) =
        Inl e \<longrightarrow>
        exercise_view env request course_key exercise_key = Inl e) \<and>
     (\<forall>values. map_of (GET request) ''post_url'' = Some values \<and> values \<noteq> [] \<longrightarrow>
        query_get (GET request) ''post_url'' = Some (last values)) \<and>
     (map_of (GET request) ''post_url'' = None \<longrightarrow> query_get (GET request) ''post_url'' = None)"
proof -
  note u = exercise_view_entry [OF assms(1)]
  note g = getitem_Some [OF assms(2)]
  have one: "translation_activate env
        (exercise_language (query_get (GET request) ''lang'') course) = Inr () \<longrightarrow>
      (\<forall>exview. import_by_path env view_type = Inr exview \<longrightarrow>
         exercise_view env request course_key exercise_key =
           exview (exercise_language (query_get (GET request) ''lang'') course) request course
             exercise (query_get (GET request) ''post_url'')) \<and>
      (import_by_path env view_type = Inl ImproperlyConfigured \<longrightarrow>
         exercise_view env request course_key exercise_key = Inl ConfigError) \<and>
      (\<forall>e. import_by_path env view_type = Inl e \<and> e \<noteq> ImproperlyConfigured \<longrightarrow>
         exercise_view env request course_key exercise_key = Inl e)"
    unfolding u g by (auto simp: and_then_def split: error.splits)
  have two: "\<forall>e. translation_activate env
        (exercise_language (query_get (GET request) ''lang'') course) = Inl e \<longrightarrow>
      exercise_view env request course_key exercise_key = Inl e"
    unfolding u by (simp add: and_then_def)
  have three: "\<forall>values. map_of (GET request) ''post_url'' = Some values \<and> values \<noteq> [] \<longrightarrow>
      query_get (GET request) ''post_url'' = Some (last values)"
    by (simp add: query_get_def)
  have four: "map_of (GET request) ''post_url'' = None \<longrightarrow>
      query_get (GET request) ''post_url'' = None"
    by (simp add: query_get_def)
  from one two three four show ?thesis by (intro conjI)
qed

theorem exercise_view_handler_witness:
  "exercise_view (example_env example_course) example_request ''c1'' ''e1'' =
     Inr (HttpResponse ''exercise page'') \<and>
   exercise_view
     ((example_env example_course)\<lparr>import_by_path := \<lambda>path. Inl ImproperlyConfigured\<rparr>)
     example_request ''c1'' ''e1'' = Inl ConfigError"
proof -
  let ?env = "example_env example_course"
  let ?bad = "?env\<lparr>import_by_path := \<lambda>path. Inl ImproperlyConfigured\<rparr>"
  let ?vt = "JStr ''access.types.stdsync.acceptPost''"
  let ?lang = "exercise_language (query_get (GET example_request) ''lang'') example_course"
  have vt: "map_of example_exercise ''view_type'' = Some ?vt"
    by (simp add: example_exercise_def)
  have bad_entry: "config_exercise_entry ?bad (JStr ''c1'') (JStr ''e1'')
      (query_get (GET example_request) ''lang'') = Inr (Some example_course, Some example_exercise)"
    by (simp add: example_env_def)
  have lang: "?lang = JStr ''en''"
    by (simp add: exercise_language_def query_get_def example_request_def example_course_def)
  have act: "translation_activate ?env ?lang = Inr ()"
    unfolding lang by (simp add: example_env_def)
  have bad_act: "translation_activate ?bad ?lang = Inr ()"
    unfolding lang by (simp add: example_env_def)
  have imp: "import_by_path ?env ?vt = Inr example_handler" by (simp add: example_env_def)
  have bad_imp: "import_by_path ?bad ?vt = Inl ImproperlyConfigured" by simp
  note good = mp [OF conjunct1 [OF exercise_view_handler [OF example_exercise_entry vt]] act]
  note bad = mp [OF conjunct1 [OF exercise_view_handler [OF bad_entry vt]] bad_act]
  have "exercise_view ?env example_request ''c1'' ''e1'' =
      example_handler ?lang example_request example_course example_exercise
        (query_get (GET example_request) ''post_url'')"
    by (rule mp [OF spec [OF conjunct1 [OF good]] imp])
  then have one: "exercise_view ?env example_request ''c1'' ''e1'' =
      Inr (HttpResponse ''exercise page'')"
    by (simp add: example_handler_def)
  have two: "exercise_view ?bad example_request ''c1'' ''e1'' = Inl ConfigError"
    by (rule mp [OF conjunct1 [OF conjunct2 [OF bad]] bad_imp])
  from one two show ?thesis by (rule conjI)
qed

theorem exercise_view_handler_counterexample:
  "config_exercise_entry untyped_exercise_env (JStr ''c1'') (JStr ''e1'')
     (query_get (GET example_request) ''lang'') =
     Inr (Some example_course, Some [(''key'', JStr ''e1'')]) \<and>
   exercise_view untyped_exercise_env example_request ''c1'' ''e1'' = Inl KeyError \<and>
   config_exercise_entry (example_env list_lang_course) (JStr ''c1'') (JStr ''e1'')
     (query_get (GET example_request) ''lang'') =
     Inr (Some list_lang_course, Some example_exercise) \<and>
   import_by_path (example_env list_lang_course) (JStr ''access.types.stdsync.acceptPost'') =
     Inr example_handler \<and>
   exercise_view (example_env list_lang_course) example_request ''c1'' ''e1'' = Inl TypeError"
  by (simp add: untyped_exercise_env_def exercise_view_def and_then_def getitem_def Let_def
      example_env_def exercise_language_def query_get_def example_request_def
      example_course_def list_lang_course_def example_exercise_def)

text \<open>
  Claim C8. A result of \<open>type_dict\<close> has no \<^verbatim>\<open>"type"\<close> key; there is such a
  result when the type names a dictionary of \<open>dict_types\<close>, whatever keys that
  dictionary has, and when it names no entry. Hence in every response of \<open>aplus_json\<close>
  no entry of the \<^verbatim>\<open>"modules"\<close> list, and no entry of a
  \<^verbatim>\<open>"children"\<close> list below it, has a \<^verbatim>\<open>"type"\<close> key.
\<close>

theorem no_type_in_feed:
  "(\<forall>r. type_dict dict_item dict_types = Inr r \<longrightarrow> map_of r ''type'' = None) \<and>
   (\<forall>s base. map_of dict_item ''type'' = Some (JStr s) \<and>
        map_of dict_types s = Some (JDict base) \<longrightarrow>
      (\<exists>r. type_dict dict_item dict_types = Inr r \<and> map_of r ''type'' = None)) \<and>
   (\<forall>s. map_of dict_item ''type'' = Some (JStr s) \<and> map_of dict_types s = None \<longrightarrow>
      (\<exists>r. type_dict dict_item dict_types = Inr r \<and> map_of r ''type'' = None)) \<and>
   (\<forall>data. aplus_json env request course_key = Inr (JsonResponse data) \<longrightarrow>
      (\<exists>d modules. data = JDict d \<and> map_of d ''modules'' = Some (JList modules) \<and>
         list_all no_type_field modules))"
proof (intro conjI allI impI)
  fix r
  assume "type_dict dict_item dict_types = Inr r"
  then show "map_of r ''type'' = None" by (rule type_dict_no_type)
next
  fix s base
  assume "map_of dict_item ''type'' = Some (JStr s) \<and> map_of dict_types s = Some (JDict base)"
  then have "type_dict dict_item dict_types = Inr (merge_item base dict_item)"
    by (simp add: type_dict_def type_entry_def deepcopy_def)
  then show "\<exists>r. type_dict dict_item dict_types = Inr r \<and> map_of r ''type'' = None"
    by (simp add: merge_item_no_type)
next
  fix s
  assume "map_of dict_item ''type'' = Some (JStr s) \<and> map_of dict_types s = None"
  then have "type_dict dict_item dict_types = Inr (merge_item [] dict_item)"
    by (simp add: type_dict_def type_entry_def)
  then show "\<exists>r. type_dict dict_item dict_types = Inr r \<and> map_of r ''type'' = None"
    by (simp add: merge_item_no_type)
next
  fix data
  assume "aplus_json env request course_key = Inr (JsonResponse data)"
  then show "\<exists>d modules. data = JDict d \<and> map_of d ''modules'' = Some (JList modules) \<and>
         list_all no_type_field modules"
    by (rule aplus_json_no_type)
qed

theorem no_type_in_feed_witness:
  "(\<exists>r. type_dict [(''type'', JStr ''t'')]
           [(''t'', JDict [(''type'', JStr ''x''), (''a'', JInt 1)])] = Inr r \<and>
        map_of r ''type'' = None) \<and>
   (\<exists>d modules. aplus_json (example_env example_course) example_request ''c1'' =
        Inr (JsonResponse (JDict d)) \<and>
      map_of d ''modules'' = Some (JList modules) \<and> list_all no_type_field modules)"
proof -
  let ?item = "[(''type'', JStr ''t'')]"
  let ?base = "[(''type'', JStr ''x''), (''a'', JInt 1)]"
  let ?types = "[(''t'', JDict ?base)]"
  let ?env = "example_env example_course"
  note all = no_type_in_feed [of ?item ?types ?env example_request "''c1''"]
  have pre: "map_of ?item ''type'' = Some (JStr ''t'') \<and> map_of ?types ''t'' = Some (JDict ?base)"
    by simp
  have one: "\<exists>r. type_dict ?item ?types = Inr r \<and> map_of r ''type'' = None"
    by (rule mp [OF spec [OF spec [OF conjunct1 [OF conjunct2 [OF all]]]] pre])
  from aplus_json_total [OF example_course_entry example_feed_ready] obtain data where
    r: "aplus_json ?env example_request ''c1'' = Inr (JsonResponse (JDict data))" by blast
  from mp [OF spec [OF conjunct2 [OF conjunct2 [OF conjunct2 [OF all]]]] r]
  obtain d modules where "JDict data = JDict d" "map_of d ''modules'' = Some (JList modules)"
    "list_all no_type_field modules" by blast
  with r have two: "\<exists>d modules. aplus_json ?env example_request ''c1'' =
        Inr (JsonResponse (JDict d)) \<and>
      map_of d ''modules'' = Some (JList modules) \<and> list_all no_type_field modules"
    by auto
  from one two show ?thesis by (rule conjI)
qed

text \<open>
  Claim C9, amended. A request to \<open>test_result\<close> whose method is not POST (a GET
  request is one) changes no file. When nothing exists under
  \<^verbatim>\<open>SUBMISSION_PATH/test-result\<close>, the response body is the text
  \<^verbatim>\<open>No test result received yet.\<close>. When a readable file is there whose bytes can be
  decoded, the body is the decoded text with its line breaks CR LF and CR turned into LF,
  and the same fallback text when the file is empty: a text without CR is returned as it
  is. When the path is a directory or the file cannot be read the view raises
  \<open>OSError\<close>, and when the bytes cannot be decoded \<open>UnicodeDecodeError\<close>.

  The counterexample is a file holding the two lines \<^verbatim>\<open>a\<close> and \<^verbatim>\<open>b\<close>
  separated by CR LF: it exists and is not empty, and the body is not its content.
\<close>

theorem test_result_get:
  assumes "http_method request \<noteq> ''POST''"
  shows
    "(let file_path = path_join (SUBMISSION_PATH env) ''test-result'';
          answer = snd (test_result env now fs request)
      in fst (test_result env now fs request) = fs \<and>
         (nodes fs file_path = None \<longrightarrow>
            answer = Inr (HttpResponse ''No test result received yet.'')) \<and>
         (nodes fs file_path = Some Directory \<longrightarrow> answer = Inl OSError) \<and>
         (\<forall>bytes. nodes fs file_path = Some (File bytes) \<and> \<not> readable fs file_path \<longrightarrow>
            answer = Inl OSError) \<and>
         (\<forall>bytes. nodes fs file_path = Some (File bytes) \<and> readable fs file_path \<and>
            decode_text env bytes = None \<longrightarrow> answer = Inl UnicodeDecodeError) \<and>
         (\<forall>bytes text. nodes fs file_path = Some (File bytes) \<and> readable fs file_path \<and>
            decode_text env bytes = Some text \<longrightarrow>
            answer = Inr (HttpResponse
              (if text = [] then ''No test result received yet.''
               else universal_newlines text)))) \<and>
     (\<forall>text. CHR 0x0D \<notin> set text \<longrightarrow> universal_newlines text = text) \<and>
     (\<forall>a b. CHR 0x0D \<notin> set a \<longrightarrow>
        universal_newlines (a @ [CHR 0x0D, CHR 0x0A] @ b) = a @ [CHR 0x0A] @ universal_newlines b) \<and>
     (\<forall>a c b. CHR 0x0D \<notin> set a \<and> c \<noteq> CHR 0x0A \<longrightarrow>
        universal_newlines (a @ [CHR 0x0D, c] @ b) = a @ [CHR 0x0A] @ universal_newlines (c # b))"
proof -
  let ?p = "path_join (SUBMISSION_PATH env) ''test-result''"
  note u = test_result_get_unfold [OF assms, of env now fs]
  have zero: "fst (test_result env now fs request) = fs"
    unfolding u by (simp split: option.splits sum.splits)
  have one: "nodes fs ?p = None \<longrightarrow>
      snd (test_result env now fs request) = Inr (HttpResponse ''No test result received yet.'')"
    unfolding u by (simp add: no_result_def)
  have two: "nodes fs ?p = Some Directory \<longrightarrow> snd (test_result env now fs request) = Inl OSError"
    unfolding u by (simp add: read_text_def)
  have three: "\<forall>bytes. nodes fs ?p = Some (File bytes) \<and> \<not> readable fs ?p \<longrightarrow>
      snd (test_result env now fs request) = Inl OSError"
    unfolding u by (simp add: read_text_def)
  have four: "\<forall>bytes. nodes fs ?p = Some (File bytes) \<and> readable fs ?p \<and>
      decode_text env bytes = None \<longrightarrow> snd (test_result env now fs request) = Inl UnicodeDecodeError"
    unfolding u by (simp add: read_text_def)
  have five: "\<forall>bytes text. nodes fs ?p = Some (File bytes) \<and> readable fs ?p \<and>
      decode_text env bytes = Some text \<longrightarrow>
      snd (test_result env now fs request) = Inr (HttpResponse
        (if text = [] then ''No test result received yet.'' else universal_newlines text))"
    unfolding u by (simp add: read_text_def universal_newlines_empty no_result_def)
  have six: "\<forall>text. CHR 0x0D \<notin> set text \<longrightarrow> universal_newlines text = text"
    by (simp add: universal_newlines_plain)
  have seven: "universal_newlines (a @ [CHR 0x0D, CHR 0x0A] @ b) =
      a @ [CHR 0x0A] @ universal_newlines b" if "CHR 0x0D \<notin> set a" for a b
    using that by (induction a rule: universal_newlines.induct) auto
  have eight: "universal_newlines (a @ [CHR 0x0D, c] @ b) =
      a @ [CHR 0x0A] @ universal_newlines (c # b)" if "CHR 0x0D \<notin> set a" "c \<noteq> CHR 0x0A" for a b c
    using that by (induction a rule: universal_newlines.induct) auto
  from zero one two three four five six seven eight show ?thesis
    by (simp add: Let_def)
qed

theorem test_result_get_witness:
  "snd (test_result (example_env example_course) ''noon''
          (example_fs [(''/srv/submissions/test-result'', File ''points5'')]) example_request) =
     Inr (HttpResponse ''points5'') \<and>
   snd (test_result (example_env example_course) ''noon''
          (example_fs [(''/srv/submissions/test-result'', File [])]) example_request) =
     Inr (HttpResponse ''No test result received yet.'') \<and>
   snd (test_result (example_env example_course) ''noon'' (example_fs []) example_request) =
     Inr (HttpResponse ''No test result received yet.'') \<and>
   snd (test_result (example_env example_course) ''noon''
          (example_fs [(''/srv/submissions/test-result'', Directory)]) example_request) =
     Inl OSError"
proof -
  let ?env = "example_env example_course"
  let ?p = "''/srv/submissions/test-result''"
  have m: "http_method example_request \<noteq> ''POST''" by (simp add: example_request_def)
  have p: "path_join (SUBMISSION_PATH ?env) ''test-result'' = ?p"
    by (rule example_path)
  note t = conjunct1 [OF test_result_get [OF m, of ?env "''noon''", unfolded Let_def p]]
  have a: "nodes (example_fs [(?p, File ''points5'')]) ?p = Some (File ''points5'') \<and>
      readable (example_fs [(?p, File ''points5'')]) ?p \<and>
      decode_text ?env ''points5'' = Some ''points5''"
    by (simp add: example_fs_def example_env_def)
  have b: "nodes (example_fs [(?p, File [])]) ?p = Some (File []) \<and>
      readable (example_fs [(?p, File [])]) ?p \<and> decode_text ?env [] = Some []"
    by (simp add: example_fs_def example_env_def)
  have c: "nodes (example_fs []) ?p = None" by (simp add: example_fs_def)
  have d: "nodes (example_fs [(?p, Directory)]) ?p = Some Directory" by (simp add: example_fs_def)
  note ta = t [of "example_fs [(?p, File ''points5'')]"]
  note tb = t [of "example_fs [(?p, File [])]"]
  note tc = t [of "example_fs []"]
  note td = t [of "example_fs [(?p, Directory)]"]
  from mp [OF spec [OF spec [OF conjunct2 [OF conjunct2 [OF conjunct2 [OF conjunct2
      [OF conjunct2 [OF ta]]]]]]] a]
  have one: "snd (test_result ?env ''noon'' (example_fs [(?p, File ''points5'')]) example_request) =
      Inr (HttpResponse ''points5'')"
    by simp
  from mp [OF spec [OF spec [OF conjunct2 [OF conjunct2 [OF conjunct2 [OF conjunct2
      [OF conjunct2 [OF tb]]]]]]] b]
  have two: "snd (test_result ?env ''noon'' (example_fs [(?p, File [])]) example_request) =
      Inr (HttpResponse ''No test result received yet.'')"
    by simp
  have three: "snd (test_result ?env ''noon'' (example_fs []) example_request) =
      Inr (HttpResponse ''No test result received yet.'')"
    by (rule mp [OF conjunct1 [OF conjunct2 [OF tc]] c])
  have four: "snd (test_result ?env ''noon'' (example_fs [(?p, Directory)]) example_request) =
      Inl OSError"
    by (rule mp [OF conjunct1 [OF conjunct2 [OF conjunct2 [OF td]]] d])
  from one two three four show ?thesis by simp
qed

theorem test_result_get_counterexample:
  "http_method example_request \<noteq> ''POST'' \<and>
   nodes (example_fs [(''/srv/submissions/test-result'', File [CHR ''a'', CHR 0x0D, CHR 0x0A, CHR ''b''])])
     ''/srv/submissions/test-result'' = Some (File [CHR ''a'', CHR 0x0D, CHR 0x0A, CHR ''b'']) \<and>
   snd (test_result (example_env example_course) ''noon''
          (example_fs [(''/srv/submissions/test-result'', File [CHR ''a'', CHR 0x0D, CHR 0x0A, CHR ''b''])])
          example_request) = Inr (HttpResponse [CHR ''a'', CHR 0x0A, CHR ''b'']) \<and>
   [CHR ''a'', CHR 0x0A, CHR ''b''] \<noteq> [CHR ''a'', CHR 0x0D, CHR 0x0A, CHR ''b'']"
  by (simp add: test_result_def Let_def read_text_def and_then_def example_fs_def
      example_request_def path_join_def example_env_def)

text \<open>
  Claim C10. When every entry of \<open>dict_list\<close> has every name of \<open>pick_fields\<close>,
  \<open>filter_fields\<close> returns a list of the same length whose \<open>i\<close>-th entry has exactly
  the keys of \<open>pick_fields\<close>, each with the value of the \<open>i\<close>-th input entry, so the
  \<open>KeyError\<close> of the lookup is not reached. When some entry lacks a name the result is that
  \<open>KeyError\<close>, whereas \<open>copy_fields\<close> always returns and keeps the names that are
  present.
\<close>

theorem filter_fields_picks:
  "((\<forall>entry\<in>set dict_list. \<forall>name\<in>set pick_fields. map_of entry name \<noteq> None) \<longrightarrow>
      (\<exists>result. filter_fields dict_list pick_fields = Inr result \<and>
         length result = length dict_list \<and>
         (\<forall>i<length dict_list.
            dom (map_of (result ! i)) = set pick_fields \<and>
            (\<forall>name\<in>set pick_fields.
               map_of (result ! i) name = map_of (dict_list ! i) name)))) \<and>
   ((\<exists>entry\<in>set dict_list. \<exists>name\<in>set pick_fields. map_of entry name = None) \<longrightarrow>
      filter_fields dict_list pick_fields = Inl KeyError) \<and>
   dom (map_of (copy_fields dict_item pick_fields)) = set pick_fields \<inter> dom (map_of dict_item) \<and>
   (\<forall>name\<in>set pick_fields.
      map_of (copy_fields dict_item pick_fields) name = map_of dict_item name)"
proof (intro conjI impI)
  assume ok: "\<forall>entry\<in>set dict_list. \<forall>name\<in>set pick_fields. map_of entry name \<noteq> None"
  from filter_loop_ok [OF ok, of "[]"] obtain rs where
    rs: "filter_loop dict_list pick_fields [] = Inr rs" "length rs = length dict_list"
        "\<forall>i<length dict_list. map_of (rs ! i) = map_of (dict_list ! i) |` set pick_fields"
    by auto
  have "dom (map_of (rs ! i)) = set pick_fields" if "i < length dict_list" for i
  proof -
    from that have "dict_list ! i \<in> set dict_list" by simp
    with ok have "set pick_fields \<subseteq> dom (map_of (dict_list ! i))" by auto
    with rs(3) that show ?thesis by auto
  qed
  moreover have "map_of (rs ! i) name = map_of (dict_list ! i) name"
    if "i < length dict_list" "name \<in> set pick_fields" for i name
    using rs(3) that by simp
  ultimately show "\<exists>result. filter_fields dict_list pick_fields = Inr result \<and>
         length result = length dict_list \<and>
         (\<forall>i<length dict_list.
            dom (map_of (result ! i)) = set pick_fields \<and>
            (\<forall>name\<in>set pick_fields.
               map_of (result ! i) name = map_of (dict_list ! i) name))"
    using rs(1,2) by (auto simp: filter_fields_def)
next
  assume "\<exists>entry\<in>set dict_list. \<exists>name\<in>set pick_fields. map_of entry name = None"
  then show "filter_fields dict_list pick_fields = Inl KeyError"
    by (simp add: filter_fields_def filter_loop_fails)
next
  show "dom (map_of (copy_fields dict_item pick_fields)) = set pick_fields \<inter> dom (map_of dict_item)"
    by (auto simp: map_of_copy_fields)
next
  show "\<forall>name\<in>set pick_fields.
      map_of (copy_fields dict_item pick_fields) name = map_of dict_item name"
    by (simp add: map_of_copy_fields)
qed

theorem filter_fields_picks_witness:
  "(\<exists>result. filter_fields
       [[(''key'', JStr ''c1''), (''name'', JStr ''One''), (''dir'', JStr ''/srv/c1'')],
        [(''name'', JStr ''Two''), (''key'', JStr ''c2'')]]
       [''key'', ''name''] = Inr result \<and> length result = 2) \<and>
   filter_fields [[(''key'', JStr ''c1'')]] [''key'', ''name''] = Inl KeyError"
proof -
  let ?dl = "[[(''key'', JStr ''c1''), (''name'', JStr ''One''), (''dir'', JStr ''/srv/c1'')],
      [(''name'', JStr ''Two''), (''key'', JStr ''c2'')]]"
  let ?pf = "[''key'', ''name'']"
  have pre: "\<forall>entry\<in>set ?dl. \<forall>name\<in>set ?pf. map_of entry name \<noteq> None"
    by simp
  have "\<exists>result. filter_fields ?dl ?pf = Inr result \<and> length result = length ?dl \<and>
         (\<forall>i<length ?dl.
            dom (map_of (result ! i)) = set ?pf \<and>
            (\<forall>name\<in>set ?pf. map_of (result ! i) name = map_of (?dl ! i) name))"
    by (rule mp [OF conjunct1 [OF filter_fields_picks [of ?dl ?pf]] pre])
  then obtain result where "filter_fields ?dl ?pf = Inr result" "length result = length ?dl"
    by (elim exE conjE)
  then have one: "\<exists>result. filter_fields ?dl ?pf = Inr result \<and> length result = 2"
    by simp
  have bad: "\<exists>entry\<in>set [[(''key'', JStr ''c1'')]]. \<exists>name\<in>set ?pf. map_of entry name = None"
    by simp
  have two: "filter_fields [[(''key'', JStr ''c1'')]] ?pf = Inl KeyError"
    by (rule mp [OF conjunct1 [OF conjunct2 [OF filter_fields_picks [of "[[(''key'', JStr ''c1'')]]" ?pf]]] bad])
  from one two show ?thesis by (rule conjI)
qed

end
